theory Spec2Isabelle
  imports Complex_Main "HOL-Library.AList" "HOL-Library.Sublist"
begin

section \<open>Python values\<close>

text \<open>
  The dictionaries that travel through the program (message metadata, agent results,
  span metadata) hold strings, booleans, numbers, \<open>None\<close> and nested dictionaries.
  A dictionary is an association list in insertion order with distinct keys:
  \<open>map_of\<close> is \<open>d.get(k)\<close>, \<open>AList.update\<close> is \<open>d[k] = v\<close> (in place
  when the key exists, appended otherwise) and \<open>AList.delete\<close> is \<open>del d[k]\<close>.
  Wall-clock readings (\<open>datetime.now()\<close>, \<open>time.time()\<close>) are idealised as reals.
\<close>

datatype pyval =
    PNone
  | PBool bool
  | PInt int
  | PStr string
  | PDict "(string \<times> pyval) list"

type_synonym pydict = "(string \<times> pyval) list"

text \<open>Python truthiness, as used by \<open>if x\<close>, \<open>x or y\<close> and \<open>x and y\<close>.\<close>

fun truthy :: "pyval \<Rightarrow> bool" where
  "truthy PNone = False"
| "truthy (PBool b) = b"
| "truthy (PInt i) = (i \<noteq> 0)"
| "truthy (PStr s) = (s \<noteq> [])"
| "truthy (PDict d) = (d \<noteq> [])"

text \<open>\<open>metadata or {}\<close> for an optional dictionary argument.\<close>

definition or_empty :: "pydict option \<Rightarrow> pydict" where
  "or_empty md = (case md of None \<Rightarrow> [] | Some d \<Rightarrow> d)"

text \<open>
  The slice \<open>xs[i:]\<close> for an integer \<open>i\<close>: a negative start counts from the end
  and is clipped at the front, a start past the end gives the empty list.
\<close>

definition slice_from :: "int \<Rightarrow> 'a list \<Rightarrow> 'a list" where
  "slice_from i xs =
     (if i < 0 then drop (nat (int (length xs) + i)) xs else drop (nat i) xs)"

text \<open>The slice \<open>xs[:n]\<close> for an integer \<open>n\<close>.\<close>

definition slice_to :: "int \<Rightarrow> 'a list \<Rightarrow> 'a list" where
  "slice_to n xs =
     (if n < 0 then take (nat (int (length xs) + n)) xs else take (nat n) xs)"


section \<open>Sessions (src/memory/session\_manager.py)\<close>

record message =
  role :: string
  content :: string
  timestamp :: real
  metadata :: pydict

record session =
  id_s :: string
  user_id :: string
  created_at :: real
  messages :: "message list"
  metadata_s :: pydict

text \<open>
  \<open>deque(maxlen=100)\<close>: \<open>append\<close> adds on the right and, when the deque is then
  longer than \<open>maxlen\<close>, drops one element on the left. It never raises.
\<close>

definition maxlen :: nat where
  "maxlen = 100"

definition deque_append :: "'a list \<Rightarrow> 'a \<Rightarrow> 'a list" where
  "deque_append d x = (let d' = d @ [x] in if length d' > maxlen then tl d' else d')"

text \<open>
  \<open>Session.add_message\<close>; \<open>now\<close> is the reading of \<open>datetime.now()\<close> taken by
  the \<open>Message\<close> constructor.
\<close>

definition add_message :: "real \<Rightarrow> string \<Rightarrow> string \<Rightarrow> pydict option \<Rightarrow> session \<Rightarrow> session" where
  "add_message now r c md s =
     s\<lparr>messages := deque_append (messages s)
          \<lparr>role = r, content = c, timestamp = now, metadata = or_empty md\<rparr>\<rparr>"

text \<open>One recorded call of \<open>add_message\<close>: clock reading, role, content, metadata.\<close>

type_synonym add_call = "real \<times> string \<times> string \<times> pydict option"

definition message_of :: "add_call \<Rightarrow> message" where
  "message_of c = (case c of (now, r, c, md) \<Rightarrow>
     \<lparr>role = r, content = c, timestamp = now, metadata = or_empty md\<rparr>)"

fun add_messages :: "add_call list \<Rightarrow> session \<Rightarrow> session" where
  "add_messages [] s = s"
| "add_messages ((now, r, c, md) # cs) s = add_messages cs (add_message now r c md s)"

text \<open>\<open>Session.get_context\<close>: \<open>list(self.messages)[-max_messages:]\<close>, reduced to pairs.\<close>

definition get_context :: "int \<Rightarrow> session \<Rightarrow> (string \<times> string) list" where
  "get_context max_messages s =
     map (\<lambda>msg. (role msg, content msg)) (slice_from (- max_messages) (messages s))"

text \<open>\<open>Session.compact_context\<close>.\<close>

definition compact_context :: "int \<Rightarrow> session \<Rightarrow> session" where
  "compact_context keep_recent s =
     (if int (length (messages s)) > keep_recent
      then s\<lparr>messages := slice_from (- keep_recent) (messages s)\<rparr>
      else s)"


text \<open>
  \<open>SessionManager\<close>. \<open>sessions\<close> is the dictionary from session id to session, in
  insertion order.
\<close>

record session_manager =
  sessions :: "(string \<times> session) list"
  max_sessions :: int

text \<open>
  \<open>_cleanup_old_sessions\<close>: \<open>sorted\<close> is stable, as \<open>sort_key\<close> is; the loop
  deletes the ids of \<open>sorted_sessions[:to_remove]\<close> one by one.
\<close>

definition cleanup_old_sessions :: "session_manager \<Rightarrow> session_manager" where
  "cleanup_old_sessions sm =
     (if int (length (sessions sm)) \<le> max_sessions sm then sm
      else
        let sorted_sessions = sort_key (\<lambda>x. created_at (snd x)) (sessions sm);
            to_remove = int (length (sessions sm)) - max_sessions sm
        in sm\<lparr>sessions :=
              foldl (\<lambda>d x. AList.delete (fst x) d) (sessions sm)
                (slice_to to_remove sorted_sessions)\<rparr>)"

text \<open>
  \<open>create_session\<close>; \<open>session_id\<close> is the value of \<open>str(uuid.uuid4())\<close> and
  \<open>now\<close> the reading of \<open>datetime.now()\<close> taken for \<open>created_at\<close>.
\<close>

definition create_session ::
  "string \<Rightarrow> real \<Rightarrow> string \<Rightarrow> pydict option \<Rightarrow> session_manager \<Rightarrow> session \<times> session_manager" where
  "create_session session_id now uid md sm =
     (let session = \<lparr>id_s = session_id, user_id = uid, created_at = now, messages = [],
                      metadata_s = or_empty md\<rparr>;
          sm1 = sm\<lparr>sessions := AList.update session_id session (sessions sm)\<rparr>;
          sm2 = (if int (length (sessions sm1)) > max_sessions sm1
                 then cleanup_old_sessions sm1 else sm1)
      in (session, sm2))"

definition get_session :: "string \<Rightarrow> session_manager \<Rightarrow> session option" where
  "get_session session_id sm = map_of (sessions sm) session_id"

text \<open>\<open>update_session\<close>: nothing happens for an unknown id.\<close>

definition update_session ::
  "real \<Rightarrow> string \<Rightarrow> string \<Rightarrow> string \<Rightarrow> pydict option \<Rightarrow> session_manager \<Rightarrow> session_manager" where
  "update_session now session_id r c md sm =
     (case get_session session_id sm of
        None \<Rightarrow> sm
      | Some s \<Rightarrow> sm\<lparr>sessions := AList.update session_id (add_message now r c md s) (sessions sm)\<rparr>)"

definition delete_session :: "string \<Rightarrow> session_manager \<Rightarrow> session_manager" where
  "delete_session session_id sm = sm\<lparr>sessions := AList.delete session_id (sessions sm)\<rparr>"


section \<open>Exceptions\<close>

text \<open>
  An exception is a value: its class and its message. \<open>str(e)\<close> is the message.
  Every class below derives from \<open>Exception\<close>, so \<open>except Exception\<close> catches it.
\<close>

datatype exn =
    OSError string
  | IndexError string
  | AttributeError string
  | RecursionError string
  | Exception string

fun str_exn :: "exn \<Rightarrow> string" where
  "str_exn (OSError m) = m"
| "str_exn (IndexError m) = m"
| "str_exn (AttributeError m) = m"
| "str_exn (RecursionError m) = m"
| "str_exn (Exception m) = m"


section \<open>Memory bank (src/memory/memory\_bank.py)\<close>

text \<open>
  A Python string is a sequence of Unicode code points. The memory bank stores
  strings, compares them, tests them for emptiness and for containment, and lower-cases
  them; it looks at no code point itself. Its strings are therefore lists over an
  arbitrary type \<open>'c\<close> of code points, and \<open>str.lower\<close> is an argument of
  \<open>search\<close>. The coordinator uses the bank with the code points of type \<open>char\<close>.
\<close>

record 'c memory_entry =
  key :: "'c list"
  value_e :: "'c list"
  category :: "'c list"
  timestamp_e :: real
  metadata_e :: pydict

text \<open>
  \<open>memories\<close> is the in-memory dictionary; \<open>disk\<close> is the JSON document at
  \<open>storage_path\<close> (\<open>None\<close> when it is absent or unreadable); \<open>printed\<close> collects the
  lines written by \<open>print\<close>.
\<close>

record 'c memory_bank =
  memories :: "('c list \<times> 'c memory_entry) list"
  disk :: "('c list \<times> 'c memory_entry) list option"
  printed :: "string list"

text \<open>
  What the file system answers during one \<open>_save_memories\<close>: the outcome of
  \<open>storage_path.parent.mkdir(parents=True, exist_ok=True)\<close>, of \<open>open(path, 'w')\<close>
  and of \<open>json.dump\<close>; \<open>None\<close> is success.
\<close>

record fs =
  mkdir_outcome :: "exn option"
  open_outcome :: "exn option"
  dump_outcome :: "exn option"

text \<open>
  \<open>_save_memories\<close>. The \<open>mkdir\<close> call stands before the \<open>try\<close>, so its exception
  leaves the function; the \<open>try\<close> covers \<open>open\<close> and \<open>json.dump\<close> only, and its
  handler prints and returns. The first component of the result is the exception
  raised to the caller, if any. A failed \<open>open\<close> leaves the file as it was; a failed
  \<open>json.dump\<close> leaves a truncated document.
\<close>

definition save_memories :: "fs \<Rightarrow> 'c memory_bank \<Rightarrow> exn option \<times> 'c memory_bank" where
  "save_memories io mb =
     (case mkdir_outcome io of
        Some e \<Rightarrow> (Some e, mb)
      | None \<Rightarrow>
          (case open_outcome io of
             Some e \<Rightarrow>
               (None, mb\<lparr>printed := printed mb @ [''Error saving memories: '' @ str_exn e]\<rparr>)
           | None \<Rightarrow>
               (case dump_outcome io of
                  Some e \<Rightarrow>
                    (None, mb\<lparr>disk := None,
                               printed := printed mb @ [''Error saving memories: '' @ str_exn e]\<rparr>)
                | None \<Rightarrow> (None, mb\<lparr>disk := Some (memories mb)\<rparr>))))"

text \<open>\<open>MemoryBank.store\<close>: the in-memory assignment, then \<open>_save_memories\<close>.\<close>

definition store ::
  "fs \<Rightarrow> real \<Rightarrow> 'c list \<Rightarrow> 'c list \<Rightarrow> 'c list \<Rightarrow> pydict option \<Rightarrow> 'c memory_bank
   \<Rightarrow> exn option \<times> 'c memory_bank" where
  "store io now k v cat md mb =
     (let entry = \<lparr>key = k, value_e = v, category = cat, timestamp_e = now,
                    metadata_e = or_empty md\<rparr>
      in save_memories io (mb\<lparr>memories := AList.update k entry (memories mb)\<rparr>))"

definition retrieve :: "'c list \<Rightarrow> 'c memory_bank \<Rightarrow> 'c list option" where
  "retrieve k mb = map_option value_e (map_of (memories mb) k)"

text \<open>The substring test \<open>q in v\<close>.\<close>

fun contains :: "'c list \<Rightarrow> 'c list \<Rightarrow> bool" where
  "contains q [] = (q = [])"
| "contains q (c # cs) = (prefix q (c # cs) \<or> contains q cs)"

text \<open>
  \<open>str.lower\<close> on the strings of type \<open>string\<close>, whose characters are the code
  points 0 to 255. On these the method works code point by code point: the letters
  \<open>A\<close> to \<open>Z\<close> (65 to 90) and the capital letters of Latin-1 (192 to 222,
  without the multiplication sign 215) move up by 32, every other code point stays.
\<close>

definition lower_char :: "char \<Rightarrow> char" where
  "lower_char c =
     (let n = (of_char c :: nat)
      in if (65 \<le> n \<and> n \<le> 90) \<or> (192 \<le> n \<and> n \<le> 222 \<and> n \<noteq> 215)
         then char_of (n + 32) else c)"

definition lower :: "string \<Rightarrow> string" where
  "lower s = map lower_char s"

text \<open>
  \<open>MemoryBank.search\<close>: the loop over \<open>self.memories.values()\<close> with its two
  \<open>continue\<close> guards. \<open>if category and \<dots>\<close> and \<open>if query and \<dots>\<close> test
  the truthiness of the argument: \<open>None\<close> and the empty string both switch the
  filter off. \<open>lw\<close> is \<open>str.lower\<close>.
\<close>

fun search_loop ::
  "('c list \<Rightarrow> 'c list) \<Rightarrow> 'c list option \<Rightarrow> 'c list option \<Rightarrow> 'c memory_entry list
   \<Rightarrow> 'c memory_entry list \<Rightarrow> 'c memory_entry list" where
  "search_loop lw cat query [] results = results"
| "search_loop lw cat query (entry # rest) results =
     (if (case cat of None \<Rightarrow> False | Some c \<Rightarrow> c \<noteq> [] \<and> category entry \<noteq> c)
      then search_loop lw cat query rest results
      else if (case query of None \<Rightarrow> False
               | Some q \<Rightarrow> q \<noteq> [] \<and> \<not> contains (lw q) (lw (value_e entry)))
      then search_loop lw cat query rest results
      else search_loop lw cat query rest (results @ [entry]))"

definition search ::
  "('c list \<Rightarrow> 'c list) \<Rightarrow> 'c list option \<Rightarrow> 'c list option \<Rightarrow> 'c memory_bank
   \<Rightarrow> 'c memory_entry list" where
  "search lw cat query mb = search_loop lw cat query (map snd (memories mb)) []"

text \<open>
  \<open>store_insight\<close>; \<open>stamp\<close> is \<open>datetime.now().strftime('%Y%m%d_%H%M%S')\<close>.
\<close>

definition store_insight ::
  "fs \<Rightarrow> real \<Rightarrow> string \<Rightarrow> string \<Rightarrow> pydict option \<Rightarrow> char memory_bank
   \<Rightarrow> (exn + string) \<times> char memory_bank" where
  "store_insight io now stamp insight md mb =
     (let k = ''insight_'' @ stamp
      in case store io now k insight ''insight'' md mb of
           (Some e, mb') \<Rightarrow> (Inl e, mb')
         | (None, mb') \<Rightarrow> (Inr k, mb'))"


section \<open>Metrics (src/observability/metrics.py)\<close>

record metric =
  name_m :: string
  value_m :: real
  timestamp_m :: real
  tags :: "(string \<times> string) list"

text \<open>
  \<open>counters\<close> is a \<open>defaultdict(int)\<close> and \<open>timers\<close> a \<open>defaultdict(list)\<close>:
  reading a missing key gives 0 or the empty list.
\<close>

record metrics_collector =
  enabled_m :: bool
  metrics :: "metric list"
  counters :: "(string \<times> int) list"
  timers :: "(string \<times> real list) list"

definition counter :: "metrics_collector \<Rightarrow> string \<Rightarrow> int" where
  "counter mc n = (case map_of (counters mc) n of None \<Rightarrow> 0 | Some v \<Rightarrow> v)"

definition timer :: "metrics_collector \<Rightarrow> string \<Rightarrow> real list" where
  "timer mc n = (case map_of (timers mc) n of None \<Rightarrow> [] | Some v \<Rightarrow> v)"

definition or_no_tags :: "(string \<times> string) list option \<Rightarrow> (string \<times> string) list" where
  "or_no_tags t = (case t of None \<Rightarrow> [] | Some d \<Rightarrow> d)"

definition increment ::
  "real \<Rightarrow> string \<Rightarrow> int \<Rightarrow> (string \<times> string) list option \<Rightarrow> metrics_collector \<Rightarrow> metrics_collector" where
  "increment now n v t mc =
     (if \<not> enabled_m mc then mc
      else
        let c = counter mc n + v
        in mc\<lparr>counters := AList.update n c (counters mc),
               metrics := metrics mc @
                 [\<lparr>name_m = n @ ''.count'', value_m = of_int c, timestamp_m = now,
                   tags = or_no_tags t\<rparr>]\<rparr>)"

definition record_timing ::
  "real \<Rightarrow> string \<Rightarrow> real \<Rightarrow> (string \<times> string) list option \<Rightarrow> metrics_collector \<Rightarrow> metrics_collector" where
  "record_timing now n duration t mc =
     (if \<not> enabled_m mc then mc
      else mc\<lparr>timers := AList.update n (timer mc n @ [duration]) (timers mc),
              metrics := metrics mc @
                [\<lparr>name_m = n @ ''.duration'', value_m = duration, timestamp_m = now,
                  tags = or_no_tags t\<rparr>]\<rparr>)"

definition gauge ::
  "real \<Rightarrow> string \<Rightarrow> real \<Rightarrow> (string \<times> string) list option \<Rightarrow> metrics_collector \<Rightarrow> metrics_collector" where
  "gauge now n v t mc =
     (if \<not> enabled_m mc then mc
      else mc\<lparr>metrics := metrics mc @
                [\<lparr>name_m = n, value_m = v, timestamp_m = now, tags = or_no_tags t\<rparr>]\<rparr>)"

record timer_stats =
  count_t :: nat
  min_t :: real
  max_t :: real
  avg_t :: real
  total_t :: real

text \<open>\<open>max\<close> of a non-empty list, as \<open>min_list\<close> is its \<open>min\<close>.\<close>

fun max_list :: "real list \<Rightarrow> real" where
  "max_list (x # xs) = (case xs of [] \<Rightarrow> x | _ \<Rightarrow> max x (max_list xs))"

text \<open>
  The summary is \<open>{}\<close> for a disabled collector, and otherwise the three keys
  \<open>counters\<close>, \<open>timers\<close> and \<open>timestamp\<close>; \<open>now\<close> is the reading of
  \<open>datetime.now()\<close> whose \<open>isoformat()\<close> is stored (distinct readings give distinct
  strings).
\<close>

datatype summary =
    EmptySummary
  | Summary (s_counters: "(string \<times> int) list")
            (s_timers: "(string \<times> timer_stats) list")
            (s_timestamp: real)

fun timer_loop ::
  "(string \<times> real list) list \<Rightarrow> (string \<times> timer_stats) list \<Rightarrow> (string \<times> timer_stats) list" where
  "timer_loop [] acc = acc"
| "timer_loop ((n, timings) # rest) acc =
     (if timings \<noteq> []
      then timer_loop rest
             (AList.update n
                \<lparr>count_t = length timings, min_t = min_list timings, max_t = max_list timings,
                 avg_t = sum_list timings / real (length timings),
                 total_t = sum_list timings\<rparr> acc)
      else timer_loop rest acc)"

definition get_summary :: "real \<Rightarrow> metrics_collector \<Rightarrow> summary" where
  "get_summary now mc =
     (if \<not> enabled_m mc then EmptySummary
      else Summary (counters mc) (timer_loop (timers mc) []) now)"

definition clear :: "metrics_collector \<Rightarrow> metrics_collector" where
  "clear mc = mc\<lparr>metrics := [], counters := [], timers := []\<rparr>"


section \<open>Tracer (src/observability/tracer.py)\<close>

text \<open>
  A \<open>TraceSpan\<close> is a mutable object that is reachable both from the span forest
  (the tracer's root list, a parent's \<open>children\<close>) and from the stack of open spans.
  The model keeps the span objects in a store, \<open>heap\<close>, and refers to them by their
  address, the index at which they were allocated; a list of spans in the source is a
  list of addresses here.
\<close>

type_synonym addr = nat

record trace_span =
  name :: string
  start_time :: real
  end_time :: "real option"
  metadata_t :: pydict
  children :: "addr list"

record tracer =
  enabled :: bool
  spans :: "addr list"
  active_spans :: "addr list"
  heap :: "trace_span list"

text \<open>
  The \<open>duration\<close> property: \<open>if self.end_time\<close> is a truthiness test, so an end time
  of \<open>0.0\<close> counts as absent.
\<close>

definition duration :: "trace_span \<Rightarrow> real option" where
  "duration sp =
     (case end_time sp of
        None \<Rightarrow> None
      | Some e \<Rightarrow> if e \<noteq> 0 then Some (e - start_time sp) else None)"


subsection \<open>The process state and the clock\<close>

text \<open>
  The objects one process shares: the global tracer, the global metrics collector, the
  coordinator's session manager and memory bank, and the number of clock readings taken
  so far. The wall clock is a function \<open>clk\<close> from the number of the reading to the
  time read; \<open>time.time()\<close>, \<open>datetime.now()\<close> and \<open>pd.Timestamp.now()\<close> all
  read it.
\<close>

record world =
  tracer :: tracer
  collector :: metrics_collector
  session_manager :: session_manager
  memory_bank :: "char memory_bank"
  ticks :: nat

definition read_clock :: "(nat \<Rightarrow> real) \<Rightarrow> world \<Rightarrow> real \<times> world" where
  "read_clock clk w = (clk (ticks w), w\<lparr>ticks := Suc (ticks w)\<rparr>)"


subsection \<open>The span context manager\<close>

text \<open>
  \<open>Tracer.span\<close> up to its \<open>yield\<close>. A disabled tracer yields nothing (\<open>None\<close>
  here) and reads no clock. Otherwise the new span is allocated, appended to the
  children of the last open span or, when none is open, to the root list, and pushed on
  the stack of open spans.
\<close>

definition span_enter ::
  "(nat \<Rightarrow> real) \<Rightarrow> string \<Rightarrow> pydict option \<Rightarrow> world \<Rightarrow> addr option \<times> world" where
  "span_enter clk n md w =
     (if \<not> enabled (tracer w) then (None, w)
      else
        let (now, w1) = read_clock clk w;
            t = tracer w1;
            a = length (heap t);
            span = \<lparr>name = n, start_time = now, end_time = None, metadata_t = or_empty md,
                     children = []\<rparr>;
            h = heap t @ [span];
            t1 = (if active_spans t \<noteq> []
                  then
                    let p = last (active_spans t)
                    in t\<lparr>heap := h[p := (h ! p)\<lparr>children := children (h ! p) @ [a]\<rparr>]\<rparr>
                  else t\<lparr>heap := h, spans := spans t @ [a]\<rparr>)
        in (Some a, w1\<lparr>tracer := t1\<lparr>active_spans := active_spans t1 @ [a]\<rparr>\<rparr>))"

text \<open>
  The \<open>finally\<close> block of \<open>Tracer.span\<close>, for the span the matching entry yielded:
  \<open>span.end_time = time.time()\<close>, then \<open>self.active_spans.pop()\<close>, which raises
  \<open>IndexError\<close> on an empty list.
\<close>

definition span_exit :: "(nat \<Rightarrow> real) \<Rightarrow> addr option \<Rightarrow> world \<Rightarrow> exn option \<times> world" where
  "span_exit clk sp w =
     (case sp of
        None \<Rightarrow> (None, w)
      | Some a \<Rightarrow>
          let (now, w1) = read_clock clk w;
              t = tracer w1;
              t1 = t\<lparr>heap := (heap t)[a := (heap t ! a)\<lparr>end_time := Some now\<rparr>]\<rparr>
          in if active_spans t1 = []
             then (Some (IndexError ''pop from empty list''), w1\<lparr>tracer := t1\<rparr>)
             else (None, w1\<lparr>tracer := t1\<lparr>active_spans := butlast (active_spans t1)\<rparr>\<rparr>))"

text \<open>
  \<open>with tracer.span(n, md): body\<close>. The body returns a value or raises; the exit runs
  in both cases, and an exception of the exit replaces the body's outcome.
\<close>

definition with_span ::
  "(nat \<Rightarrow> real) \<Rightarrow> string \<Rightarrow> pydict option \<Rightarrow> (world \<Rightarrow> (exn + 'a) \<times> world)
   \<Rightarrow> world \<Rightarrow> (exn + 'a) \<times> world" where
  "with_span clk n md body w =
     (let (sp, w1) = span_enter clk n md w;
          (r, w2) = body w1;
          (e, w3) = span_exit clk sp w2
      in case e of Some x \<Rightarrow> (Inl x, w3) | None \<Rightarrow> (r, w3))"


subsection \<open>The trace summary\<close>

datatype span_summary =
  SpanSummary (sum_name: string) (sum_duration: "real option") (sum_metadata: pydict)
              (sum_children: "span_summary list")

text \<open>
  \<open>summarize_span\<close> recurses through the children. On the store the recursion is
  bounded by a fuel; running out of it is \<open>None\<close>, the \<open>RecursionError\<close> of a
  recursion that does not end.
\<close>

fun summarize_span :: "nat \<Rightarrow> trace_span list \<Rightarrow> addr \<Rightarrow> span_summary option" where
  "summarize_span 0 h a = None"
| "summarize_span (Suc n) h a =
     (if a < length h
      then map_option
             (SpanSummary (name (h ! a)) (duration (h ! a)) (metadata_t (h ! a)))
             (those (map (\<lambda>c. summarize_span n h c) (children (h ! a))))
      else None)"

datatype trace_summary =
    EmptyTrace
  | TraceSummary (t_spans: "span_summary list") (t_total_spans: nat) (t_timestamp: real)

text \<open>
  \<open>get_trace_summary\<close>. The fuel is the number of spans allocated, which is enough
  for every forest (lemma \<open>summarize_span_enough\<close> below); the interpreter's own
  recursion limit is not modelled.
\<close>

definition get_trace_summary :: "(nat \<Rightarrow> real) \<Rightarrow> world \<Rightarrow> (exn + trace_summary) \<times> world" where
  "get_trace_summary clk w =
     (let t = tracer w in
      if \<not> enabled t then (Inr EmptyTrace, w)
      else
        case those (map (\<lambda>a. summarize_span (length (heap t)) (heap t) a) (spans t)) of
          None \<Rightarrow> (Inl (RecursionError ''maximum recursion depth exceeded''), w)
        | Some ss \<Rightarrow>
            let (now, w1) = read_clock clk w
            in (Inr (TraceSummary ss (length (spans t)) now), w1))"


subsection \<open>Scoped programs\<close>





section \<open>Coordinator (src/coordinator.py)\<close>

subsection \<open>The shared objects, as the coordinator uses them\<close>

text \<open>
  \<open>self.metrics.increment(name)\<close> on the global collector. The \<open>Metric\<close> record
  takes its timestamp from the clock, so the clock is read when the collector is enabled.
\<close>

definition increment_w :: "(nat \<Rightarrow> real) \<Rightarrow> string \<Rightarrow> world \<Rightarrow> world" where
  "increment_w clk n w =
     (if \<not> enabled_m (collector w) then w
      else let (now, w1) = read_clock clk w
           in w1\<lparr>collector := increment now n 1 None (collector w1)\<rparr>)"

text \<open>\<open>self.metrics.record_timing(name, duration)\<close>.\<close>

definition record_timing_w :: "(nat \<Rightarrow> real) \<Rightarrow> string \<Rightarrow> real \<Rightarrow> world \<Rightarrow> world" where
  "record_timing_w clk n d w =
     (if \<not> enabled_m (collector w) then w
      else let (now, w1) = read_clock clk w
           in w1\<lparr>collector := record_timing now n d None (collector w1)\<rparr>)"

text \<open>\<open>self.metrics.get_summary()\<close>.\<close>

definition get_summary_w :: "(nat \<Rightarrow> real) \<Rightarrow> world \<Rightarrow> summary \<times> world" where
  "get_summary_w clk w =
     (if \<not> enabled_m (collector w) then (EmptySummary, w)
      else let (now, w1) = read_clock clk w in (get_summary now (collector w1), w1))"

text \<open>
  \<open>self.session_manager.update_session(self.session.id, role, content)\<close>: the
  \<open>Message\<close> is constructed, and the clock read, only when the session is found.
\<close>

definition update_session_w :: "(nat \<Rightarrow> real) \<Rightarrow> string \<Rightarrow> string \<Rightarrow> string \<Rightarrow> world \<Rightarrow> world" where
  "update_session_w clk sid r c w =
     (case get_session sid (session_manager w) of
        None \<Rightarrow> w
      | Some _ \<Rightarrow>
          let (now, w1) = read_clock clk w
          in w1\<lparr>session_manager := update_session now sid r c None (session_manager w1)\<rparr>)"

text \<open>
  \<open>self.memory_bank.store_insight(insight, metadata)\<close>: one clock reading for the key,
  rendered by \<open>strftime\<close> (the function \<open>stamp\<close>), and one for the entry.
\<close>

definition store_insight_w ::
  "(nat \<Rightarrow> real) \<Rightarrow> fs \<Rightarrow> (real \<Rightarrow> string) \<Rightarrow> string \<Rightarrow> pydict option \<Rightarrow> world
   \<Rightarrow> (exn + string) \<times> world" where
  "store_insight_w clk io stamp insight md w =
     (let (t1, w1) = read_clock clk w;
          (t2, w2) = read_clock clk w1;
          (r, mb) = store_insight io t2 (stamp t1) insight md (memory_bank w2)
      in (r, w2\<lparr>memory_bank := mb\<rparr>))"


subsection \<open>Sequencing with exceptions\<close>

text \<open>
  A step returns a value or raises, and leaves a state. \<open>then_do f g\<close> runs \<open>g\<close>
  on the value of \<open>f\<close>, and stops at an exception of \<open>f\<close>.
\<close>

definition ret :: "'a \<Rightarrow> world \<Rightarrow> (exn + 'a) \<times> world" where
  "ret x w = (Inr x, w)"

definition then_do ::
  "(world \<Rightarrow> (exn + 'a) \<times> world) \<Rightarrow> ('a \<Rightarrow> world \<Rightarrow> (exn + 'b) \<times> world)
   \<Rightarrow> world \<Rightarrow> (exn + 'b) \<times> world" where
  "then_do f g w = (case f w of (Inl e, w') \<Rightarrow> (Inl e, w') | (Inr x, w') \<Rightarrow> g x w')"


subsection \<open>The coordinator and its collaborators\<close>

text \<open>The truthiness of an optional string: \<open>None\<close> and \<open>""\<close> are false.\<close>

definition truthy_str :: "string option \<Rightarrow> bool" where
  "truthy_str x = (case x of None \<Rightarrow> False | Some p \<Rightarrow> p \<noteq> [])"

text \<open>\<open>d.get(k)\<close>, with \<open>None\<close> for a missing key.\<close>

definition dict_get :: "pydict \<Rightarrow> string \<Rightarrow> pyval" where
  "dict_get d k = (case map_of d k of None \<Rightarrow> PNone | Some v \<Rightarrow> v)"

text \<open>A \<open>pandas.DataFrame\<close>, opaque but for the records it was built from.\<close>

datatype frame = Frame pyval

text \<open>
  The response of \<open>analyze\<close>. The dictionary built by \<open>_compile_response\<close> has
  \<open>success: True\<close> and the fields below; the keys \<open>analysis\<close> and \<open>report\<close> are
  present exactly when the fields are not \<open>None\<close>, \<open>analysis\<close> holding
  \<open>insights\<close> and \<open>statistics\<close> and \<open>report\<close> holding \<open>filepath\<close> and
  \<open>format\<close>. The other dictionary the method returns is
  \<open>{"success": False, "error": message}\<close>.
\<close>

record response =
  r_query :: string
  r_session_id :: string
  r_workflow :: pydict
  r_analysis :: "(pyval \<times> pyval) option"
  r_report :: "(pyval \<times> pyval) option"
  r_trace :: trace_summary
  r_metrics :: summary

datatype result = Compiled response | Failed string

definition success :: "result \<Rightarrow> bool" where
  "success r = (case r of Compiled _ \<Rightarrow> True | Failed _ \<Rightarrow> False)"

text \<open>
  The coordinator object during one request: the clock, \<open>self.session.id\<close>, and the
  answers of the collaborators it calls. \<open>plan_llm\<close> is the outcome of
  \<open>self.model.generate_content\<close> in \<open>_plan_workflow\<close> (\<open>None\<close>: it returned);
  \<open>load_csv\<close> and \<open>load_json\<close> are the data loader's methods, \<open>make_frame\<close> is
  \<open>pd.DataFrame\<close>; \<open>analyze_data\<close> and \<open>generate_report\<close> are the methods of
  the two agents, which share the process state; \<open>fs_io\<close> is the file system under the
  memory bank; \<open>stamp\<close> is \<open>strftime\<close> and \<open>str_of\<close> is \<open>str\<close> on a response.
\<close>

record env =
  clock :: "nat \<Rightarrow> real"
  session_id :: string
  plan_llm :: "exn option"
  load_csv :: "string \<Rightarrow> exn + pydict"
  load_json :: "string \<Rightarrow> exn + pydict"
  make_frame :: "pyval \<Rightarrow> exn + frame"
  analyze_data :: "frame option \<Rightarrow> string \<Rightarrow> world \<Rightarrow> (exn + pydict) \<times> world"
  generate_report :: "pyval \<Rightarrow> pydict \<Rightarrow> world \<Rightarrow> (exn + pydict) \<times> world"
  fs_io :: fs
  stamp :: "real \<Rightarrow> string"
  str_of :: "response \<Rightarrow> string"

text \<open>
  \<open>_plan_workflow\<close>: the answer of the model is not used; when the call raises, the
  handler returns the default plan.
\<close>

definition plan_workflow :: "exn option \<Rightarrow> string \<Rightarrow> string option \<Rightarrow> pydict" where
  "plan_workflow llm query data_file =
     (case llm of
        None \<Rightarrow>
          [(''needs_data'', PBool (data_file \<noteq> None \<or> contains ''data'' (lower query))),
           (''perform_analysis'', PBool True),
           (''generate_report'',
              PBool (contains ''report'' (lower query) \<or> contains ''analyze'' (lower query))),
           (''report_title'', PStr ''Business Analytics Report'')]
      | Some e \<Rightarrow>
          [(''needs_data'', PBool (data_file \<noteq> None)),
           (''perform_analysis'', PBool True),
           (''generate_report'', PBool True),
           (''report_title'', PStr ''Business Analytics Report'')])"

text \<open>
  The \<open>try\<close> block of \<open>_load_data\<close>; every exception in it makes the result
  \<open>None\<close>: \<open>file_path.endswith\<close> on \<open>None\<close>, an exception of the loader,
  a missing \<open>data\<close> key, an exception of \<open>pd.DataFrame\<close>.
\<close>

definition load_data_try :: "env \<Rightarrow> string option \<Rightarrow> frame option" where
  "load_data_try env file_path =
     (case file_path of
        None \<Rightarrow> None
      | Some p \<Rightarrow>
          (case (if suffix ''.csv'' p then Some (load_csv env p)
                 else if suffix ''.json'' p then Some (load_json env p)
                 else None) of
             None \<Rightarrow> None
           | Some (Inl e) \<Rightarrow> None
           | Some (Inr res) \<Rightarrow>
               if truthy (dict_get res ''success'')
               then (case map_of res ''data'' of
                       None \<Rightarrow> None
                     | Some d \<Rightarrow> (case make_frame env d of Inl e \<Rightarrow> None | Inr f \<Rightarrow> Some f))
               else None))"

text \<open>\<open>_load_data\<close>: the \<open>try\<close> block inside the span \<open>data_loading\<close>.\<close>

definition load_data :: "env \<Rightarrow> string option \<Rightarrow> world \<Rightarrow> (exn + frame option) \<times> world" where
  "load_data env file_path =
     with_span (clock env) ''data_loading''
       (Some [(''file'', case file_path of None \<Rightarrow> PNone | Some p \<Rightarrow> PStr p)])
       (ret (load_data_try env file_path))"

text \<open>
  The text stored for an insight. The agents hand over a string (\<open>response.text\<close>);
  the model stores no text for a value of another type.
\<close>

definition text_of :: "pyval \<Rightarrow> string" where
  "text_of v = (case v of PStr s \<Rightarrow> s | _ \<Rightarrow> [])"

text \<open>
  Step 3 of \<open>analyze\<close>: the analysis agent, then \<open>store_insight\<close> when the result
  reports success and has the key \<open>insights\<close>.
\<close>

definition analysis_step ::
  "env \<Rightarrow> pydict \<Rightarrow> frame option \<Rightarrow> string \<Rightarrow> world \<Rightarrow> (exn + pydict) \<times> world" where
  "analysis_step env workflow data query =
     (if truthy (dict_get workflow ''perform_analysis'')
      then then_do (analyze_data env data query)
             (\<lambda>analysis_results.
                if truthy (dict_get analysis_results ''success'')
                   \<and> map_of analysis_results ''insights'' \<noteq> None
                then then_do
                       (store_insight_w (clock env) (fs_io env) (stamp env)
                          (text_of (dict_get analysis_results ''insights''))
                          (Some [(''query'', PStr query),
                                 (''session_id'', PStr (session_id env))]))
                       (\<lambda>k. ret analysis_results)
                else ret analysis_results)
      else ret [])"

text \<open>Step 4: the report agent, with whatever the analysis returned.\<close>

definition report_step :: "env \<Rightarrow> pydict \<Rightarrow> pydict \<Rightarrow> world \<Rightarrow> (exn + pydict) \<times> world" where
  "report_step env workflow analysis_results =
     (if truthy (dict_get workflow ''generate_report'')
      then generate_report env
             (case map_of workflow ''report_title'' of
                None \<Rightarrow> PStr ''Business Analytics Report'' | Some t \<Rightarrow> t)
             analysis_results
      else ret [])"

text \<open>
  \<open>_compile_response\<close>. \<open>report_results.get("report", {}).get("filepath")\<close> raises
  \<open>AttributeError\<close> when the value under \<open>report\<close> is not a dictionary.
\<close>

definition compile_response ::
  "env \<Rightarrow> string \<Rightarrow> pydict \<Rightarrow> pydict \<Rightarrow> pydict \<Rightarrow> world \<Rightarrow> (exn + response) \<times> world" where
  "compile_response env query analysis_results report_results workflow w =
     (let analysis =
            (if truthy (dict_get analysis_results ''success'')
             then Some (dict_get analysis_results ''insights'',
                        dict_get analysis_results ''statistics'')
             else None)
      in case (if truthy (dict_get report_results ''success'')
               then (case map_of report_results ''report'' of
                       None \<Rightarrow> Inr (Some (PNone, PNone))
                     | Some (PDict rep) \<Rightarrow>
                         Inr (Some (dict_get rep ''filepath'', dict_get rep ''format''))
                     | Some _ \<Rightarrow> Inl (AttributeError ''object has no attribute get''))
               else Inr None) of
           Inl e \<Rightarrow> (Inl e, w)
         | Inr report \<Rightarrow>
             (case get_trace_summary (clock env) w of
                (Inl e, w1) \<Rightarrow> (Inl e, w1)
              | (Inr trace, w1) \<Rightarrow>
                  let (ms, w2) = get_summary_w (clock env) w1
                  in (Inr \<lparr>r_query = query, r_session_id = session_id env,
                           r_workflow = workflow, r_analysis = analysis, r_report = report,
                           r_trace = trace, r_metrics = ms\<rparr>, w2)))"

text \<open>
  The end of the \<open>try\<close> block: the response goes to the session, the duration and
  the success counter to the metrics.
\<close>

definition finish :: "env \<Rightarrow> real \<Rightarrow> response \<Rightarrow> world \<Rightarrow> (exn + result) \<times> world" where
  "finish env started resp w =
     (let w1 = update_session_w (clock env) (session_id env) ''assistant'' (str_of env resp) w;
          (now, w2) = read_clock (clock env) w1;
          w3 = record_timing_w (clock env) ''coordinator.analysis_duration'' (now - started) w2;
          w4 = increment_w (clock env) ''coordinator.analysis_success'' w3
      in (Inr (Compiled resp), w4))"

text \<open>Steps 3 to 5, for the data at hand (\<open>None\<close> when none was asked for).\<close>

definition analyze_rest ::
  "env \<Rightarrow> string \<Rightarrow> pydict \<Rightarrow> real \<Rightarrow> frame option \<Rightarrow> world \<Rightarrow> (exn + result) \<times> world" where
  "analyze_rest env query workflow started data =
     then_do (analysis_step env workflow data query)
       (\<lambda>analysis_results.
          then_do (report_step env workflow analysis_results)
            (\<lambda>report_results.
               then_do (compile_response env query analysis_results report_results workflow)
                 (finish env started)))"

text \<open>
  The \<open>try\<close> block of \<open>analyze\<close>. Data is loaded when \<open>data_file\<close> is truthy or
  the plan asks for it, from \<open>data_file or workflow.get("data_file")\<close>; the plan has
  no such key. The block returns early when loading gave \<open>None\<close>.
\<close>

definition analyze_try ::
  "env \<Rightarrow> string \<Rightarrow> string option \<Rightarrow> real \<Rightarrow> world \<Rightarrow> (exn + result) \<times> world" where
  "analyze_try env query data_file started w =
     (let w1 = update_session_w (clock env) (session_id env) ''user'' query w;
          workflow = plan_workflow (plan_llm env) query data_file
      in if truthy_str data_file \<or> truthy (dict_get workflow ''needs_data'')
         then then_do (load_data env (if truthy_str data_file then data_file else None))
                (\<lambda>data. case data of
                           None \<Rightarrow> ret (Failed ''Failed to load data'')
                         | Some f \<Rightarrow> analyze_rest env query workflow started (Some f)) w1
         else analyze_rest env query workflow started None w1)"

text \<open>
  The body of the \<open>with\<close> block of \<open>analyze\<close>: the request counter, the
  \<open>try\<close> block and its \<open>except Exception\<close> handler.
\<close>

definition analyze_body ::
  "env \<Rightarrow> string \<Rightarrow> string option \<Rightarrow> world \<Rightarrow> (exn + result) \<times> world" where
  "analyze_body env query data_file w =
     (let w1 = increment_w (clock env) ''coordinator.analysis_requests'' w;
          (started, w2) = read_clock (clock env) w1
      in case analyze_try env query data_file started w2 of
           (Inr r, w3) \<Rightarrow> (Inr r, w3)
         | (Inl e, w3) \<Rightarrow>
             (Inr (Failed (str_exn e)),
              increment_w (clock env) ''coordinator.analysis_errors'' w3))"

text \<open>\<open>CoordinatorAgent.analyze\<close>.\<close>

definition analyze ::
  "env \<Rightarrow> string \<Rightarrow> string option \<Rightarrow> world \<Rightarrow> (exn + result) \<times> world" where
  "analyze env query data_file =
     with_span (clock env) ''coordinator.analyze'' (Some [(''query'', PStr query)])
       (analyze_body env query data_file)"


subsection \<open>The two agents (src/agents)\<close>

text \<open>
  \<open>DataAnalystAgent.analyze_data\<close>: a span around the request counter and a
  \<open>try\<close> block whose work (the statistics tool and the language model) either gives
  the insights, the statistics and the shape of the data, or raises; the handler turns
  the exception into a result. Without data the block raises at \<open>data.shape\<close>.
\<close>

definition data_analyst_body ::
  "(nat \<Rightarrow> real) \<Rightarrow> (frame \<Rightarrow> string \<Rightarrow> exn + string \<times> pyval \<times> pyval)
   \<Rightarrow> frame option \<Rightarrow> string \<Rightarrow> world \<Rightarrow> (exn + pydict) \<times> world" where
  "data_analyst_body clk work data query w =
     (let w1 = increment_w clk ''data_analyst.analysis_requests'' w
      in case (case data of
                 None \<Rightarrow> Inl (AttributeError ''NoneType object has no attribute shape'')
               | Some f \<Rightarrow> work f query) of
           Inr (insights, statistics, shape) \<Rightarrow>
             (Inr [(''success'', PBool True), (''query'', PStr query),
                   (''insights'', PStr insights), (''statistics'', statistics),
                   (''data_shape'', shape)],
              increment_w clk ''data_analyst.analysis_success'' w1)
         | Inl e \<Rightarrow>
             (Inr [(''success'', PBool False), (''error'', PStr (str_exn e))],
              increment_w clk ''data_analyst.analysis_errors'' w1))"

definition data_analyst_analyze_data ::
  "(nat \<Rightarrow> real) \<Rightarrow> (frame \<Rightarrow> string \<Rightarrow> exn + string \<times> pyval \<times> pyval)
   \<Rightarrow> frame option \<Rightarrow> string \<Rightarrow> world \<Rightarrow> (exn + pydict) \<times> world" where
  "data_analyst_analyze_data clk work data query =
     with_span clk ''data_analysis'' (Some [(''query'', PStr query)])
       (data_analyst_body clk work data query)"

text \<open>
  \<open>ReportGeneratorAgent.generate_report\<close>, in the same way: the work of the
  \<open>try\<close> block gives the formatter's result and the number of sections, or raises.
\<close>

definition report_generator_body ::
  "(nat \<Rightarrow> real) \<Rightarrow> (pyval \<Rightarrow> pydict \<Rightarrow> exn + pyval \<times> int)
   \<Rightarrow> pyval \<Rightarrow> pydict \<Rightarrow> world \<Rightarrow> (exn + pydict) \<times> world" where
  "report_generator_body clk work title analysis_results w =
     (let w1 = increment_w clk ''report_generator.report_requests'' w
      in case work title analysis_results of
           Inr (report_result, sections) \<Rightarrow>
             (Inr [(''success'', PBool True), (''report'', report_result),
                   (''sections'', PInt sections)],
              increment_w clk ''report_generator.report_success'' w1)
         | Inl e \<Rightarrow>
             (Inr [(''success'', PBool False), (''error'', PStr (str_exn e))],
              increment_w clk ''report_generator.report_errors'' w1))"

definition report_generator_generate_report ::
  "(nat \<Rightarrow> real) \<Rightarrow> (pyval \<Rightarrow> pydict \<Rightarrow> exn + pyval \<times> int)
   \<Rightarrow> pyval \<Rightarrow> pydict \<Rightarrow> world \<Rightarrow> (exn + pydict) \<times> world" where
  "report_generator_generate_report clk work title analysis_results =
     with_span clk ''report_generation'' (Some [(''title'', title)])
       (report_generator_body clk work title analysis_results)"


section \<open>Invariants of the tracer\<close>

text \<open>
  The shape every tracer reached through \<open>span\<close> has: the addresses in the root
  list, on the stack and in the children lists are allocated, children were allocated
  after their parent, and the root list and every children list are in the order of
  allocation, which is the order in which the spans were opened.
\<close>

definition wf_tracer :: "tracer \<Rightarrow> bool" where
  "wf_tracer t \<longleftrightarrow>
     (let n = length (heap t) in
      list_all (\<lambda>a. a < n) (spans t) \<and>
      list_all (\<lambda>a. a < n) (active_spans t) \<and>
      list_all (\<lambda>a. list_all (\<lambda>c. a < c \<and> c < n) (children (heap t ! a))) [0..<n] \<and>
      sorted_wrt (<) (spans t) \<and>
      list_all (\<lambda>a. sorted_wrt (<) (children (heap t ! a))) [0..<n])"

text \<open>
  A span seen at a later time: nothing but its children may have changed, and the
  children only by additions at the end.
\<close>

definition same_span :: "trace_span \<Rightarrow> trace_span \<Rightarrow> bool" where
  "same_span s s' \<longleftrightarrow>
     name s' = name s \<and> start_time s' = start_time s \<and> end_time s' = end_time s \<and>
     metadata_t s' = metadata_t s \<and> prefix (children s) (children s')"

text \<open>A span that was closed, at or after the time it was opened.\<close>

definition closed_ok :: "trace_span \<Rightarrow> bool" where
  "closed_ok s \<longleftrightarrow> end_time s \<noteq> None \<and> start_time s \<le> the (end_time s)"

text \<open>
  The later state \<open>w'\<close> extends \<open>w\<close>: the same spans are open, the root list is
  extended, no clock reading was undone, every span of \<open>w\<close> is still there as it
  was, and (for a clock that does not run backwards) every span allocated since is
  closed.
\<close>

definition extends :: "(nat \<Rightarrow> real) \<Rightarrow> world \<Rightarrow> world \<Rightarrow> bool" where
  "extends clk w w' \<longleftrightarrow>
     (let t = tracer w; t' = tracer w'; n = length (heap t) in
      enabled t' = enabled t \<and>
      active_spans t' = active_spans t \<and>
      prefix (spans t) (spans t') \<and>
      ticks w \<le> ticks w' \<and>
      n \<le> length (heap t') \<and>
      list_all (\<lambda>a. same_span (heap t ! a) (heap t' ! a)) [0..<n] \<and>
      (mono clk \<longrightarrow> list_all (\<lambda>a. closed_ok (heap t' ! a)) [n..<length (heap t')]))"

text \<open>The span object that \<open>Tracer.span\<close> constructs when the clock has been read \<open>ticks w\<close> times.\<close>

definition new_span :: "(nat \<Rightarrow> real) \<Rightarrow> string \<Rightarrow> pydict option \<Rightarrow> world \<Rightarrow> trace_span" where
  "new_span clk n md w =
     \<lparr>name = n, start_time = clk (ticks w), end_time = None, metadata_t = or_empty md,
      children = []\<rparr>"

text \<open>
  An operation is scoped when, run on a well-shaped tracer, it leaves a well-shaped
  tracer that extends the one it started from.
\<close>

definition scoped :: "(nat \<Rightarrow> real) \<Rightarrow> (world \<Rightarrow> 'a \<times> world) \<Rightarrow> bool" where
  "scoped clk f \<longleftrightarrow>
     (\<forall>w. wf_tracer (tracer w) \<longrightarrow> wf_tracer (tracer (snd (f w))) \<and> extends clk w (snd (f w)))"



text \<open>
  The two agents of a coordinator keep the tracer's discipline: whatever their
  arguments, \<open>analyze_data\<close> and \<open>generate_report\<close> are scoped.
\<close>

definition scoped_agents :: "env \<Rightarrow> bool" where
  "scoped_agents env \<longleftrightarrow>
     (\<forall>d q. scoped (clock env) (analyze_data env d q)) \<and>
     (\<forall>t a. scoped (clock env) (generate_report env t a))"


section \<open>Auxiliary definitions and concrete inputs\<close>

text \<open>
  What \<open>_cleanup_old_sessions\<close> leaves of the dictionary \<open>xs\<close> when it removes
  \<open>k\<close> entries: the loop of deletions over the first \<open>k\<close> entries of the sorted list.
\<close>

definition evict :: "nat \<Rightarrow> (string \<times> session) list \<Rightarrow> (string \<times> session) list" where
  "evict k xs = foldl (\<lambda>d x. AList.delete (fst x) d) xs
                   (take k (sort_key (\<lambda>x. created_at (snd x)) xs))"

text \<open>A session with no messages, and 101 calls of \<open>add_message\<close>.\<close>

definition session0 :: session where
  "session0 = \<lparr>id_s = ''s'', user_id = ''u'', created_at = 0, messages = [], metadata_s = []\<rparr>"

definition calls101 :: "add_call list" where
  "calls101 = map (\<lambda>i. (real i, ''user'', ''m'', None)) [0..<101]"

text \<open>A full session manager: two sessions, the second one created first.\<close>

definition sm_full :: session_manager where
  "sm_full = \<lparr>sessions =
      [(''a'', \<lparr>id_s = ''a'', user_id = ''u'', created_at = 2, messages = [], metadata_s = []\<rparr>),
       (''b'', \<lparr>id_s = ''b'', user_id = ''u'', created_at = 1, messages = [], metadata_s = []\<rparr>)],
     max_sessions = 2\<rparr>"


text \<open>
  Containment without regard to case, in the words of the specification and for text
  in ASCII: two characters are the same letter when they are equal or are the capital
  and the small form of one of the letters \<open>A\<close> to \<open>Z\<close>; \<open>v\<close> contains
  \<open>q\<close> when, at some position of \<open>v\<close>, as many characters as \<open>q\<close> has
  follow that are the same letters as those of \<open>q\<close>, one by one.
\<close>

definition ascii :: "char \<Rightarrow> bool" where
  "ascii c \<longleftrightarrow> (of_char c :: nat) < 128"

definition same_letter :: "char \<Rightarrow> char \<Rightarrow> bool" where
  "same_letter a b \<longleftrightarrow>
     (let m = (of_char a :: nat); n = (of_char b :: nat)
      in m = n \<or> (65 \<le> m \<and> m \<le> 90 \<and> n = m + 32) \<or> (65 \<le> n \<and> n \<le> 90 \<and> m = n + 32))"

definition caseless_in :: "string \<Rightarrow> string \<Rightarrow> bool" where
  "caseless_in q v \<longleftrightarrow>
     list_ex (\<lambda>i. list_all2 same_letter q (take (length q) (drop i v))) [0..<Suc (length v)]"

text \<open>The two entries of the search example, the first with a capital letter.\<close>

definition bank2 :: "char memory_bank" where
  "bank2 = \<lparr>memories =
      [(''k1'', \<lparr>key = ''k1'', value_e = ''Sales up'', category = ''insight'',
                timestamp_e = 1, metadata_e = []\<rparr>),
       (''k2'', \<lparr>key = ''k2'', value_e = ''likes sales'', category = ''preference'',
                timestamp_e = 2, metadata_e = []\<rparr>)],
     disk = None, printed = []\<rparr>"

text \<open>
  A bank over the code points as numbers, holding one entry whose value is the Greek
  word of the capital letters alpha, sigma, alpha (913, 931, 913), and what
  \<open>str.lower\<close> returns for that word and for its first two letters: a capital sigma
  at the end of a word becomes the final sigma (962), elsewhere the sigma (963).
\<close>

definition bank_sigma :: "nat memory_bank" where
  "bank_sigma = \<lparr>memories =
      [([107], \<lparr>key = [107], value_e = [913, 931, 913], category = [102],
                timestamp_e = 1, metadata_e = []\<rparr>)],
     disk = None, printed = []\<rparr>"

definition lower_sigma :: "nat list \<Rightarrow> nat list" where
  "lower_sigma s =
     (if s = [913, 931] then [945, 962]
      else if s = [913, 931, 913] then [945, 963, 945]
      else undefined)"

text \<open>An empty memory bank, and a file system that refuses to create the directory.\<close>

definition bank0 :: "char memory_bank" where
  "bank0 = \<lparr>memories = [], disk = None, printed = []\<rparr>"

definition fs_no_dir :: fs where
  "fs_no_dir = \<lparr>mkdir_outcome = Some (OSError ''Permission denied''),
                open_outcome = None, dump_outcome = None\<rparr>"

text \<open>An enabled collector holding one counter and one timer.\<close>

definition mc1 :: metrics_collector where
  "mc1 = \<lparr>enabled_m = True, metrics = [],
           counters = [(''coordinator.analysis_requests'', 2)],
           timers = [(''coordinator.analysis_duration'', [1, 3])]\<rparr>"


text \<open>
  A process that has just started: an enabled tracer with no span, an enabled and empty
  collector, one session, an empty memory bank, and a clock never read.
\<close>

definition world0 :: world where
  "world0 =
     \<lparr>tracer = \<lparr>enabled = True, spans = [], active_spans = [], heap = []\<rparr>,
      collector = \<lparr>enabled_m = True, metrics = [], counters = [], timers = []\<rparr>,
      session_manager = \<lparr>sessions = [(''s'', session0)], max_sessions = 1000\<rparr>,
      memory_bank = bank0,
      ticks = 0\<rparr>"





text \<open>A file system on which every step of saving succeeds.\<close>

definition fs_ok :: fs where
  "fs_ok = \<lparr>mkdir_outcome = None, open_outcome = None, dump_outcome = None\<rparr>"

text \<open>
  A coordinator with the two agents of the repository. The analysis work succeeds on
  any data; the report work returns a report at \<open>x.md\<close>.
\<close>

definition env_demo :: env where
  "env_demo =
     \<lparr>clock = real, session_id = ''s'', plan_llm = None,
      load_csv = (\<lambda>p. Inl (OSError ''No such file'')),
      load_json = (\<lambda>p. Inl (OSError ''No such file'')),
      make_frame = (\<lambda>d. Inr (Frame d)),
      analyze_data = data_analyst_analyze_data real (\<lambda>f q. Inr (''insight'', PDict [], PNone)),
      generate_report = report_generator_generate_report real
         (\<lambda>t a. Inr (PDict [(''filepath'', PStr ''x.md''), (''format'', PStr ''markdown'')], 2)),
      fs_io = fs_ok, stamp = (\<lambda>t. ''20260101_000000''), str_of = (\<lambda>r. ''response'')\<rparr>"

text \<open>The same coordinator with an analysis collaborator that raises.\<close>

definition env_throw :: env where
  "env_throw = env_demo\<lparr>analyze_data := (\<lambda>d q w. (Inl (Exception ''analysis exploded''), w))\<rparr>"

text \<open>
  The coordinator of the repository with a report collaborator that reports success
  and gives the report as a path, not as a dictionary.
\<close>

definition env_report_text :: env where
  "env_report_text =
     env_demo\<lparr>generate_report :=
        (\<lambda>t a w. (Inr [(''success'', PBool True), (''report'', PStr ''x.md'')], w))\<rparr>"


section \<open>Bounded history\<close>

lemma deque_append_length:
  "length d \<le> maxlen \<Longrightarrow> length (deque_append d x) \<le> maxlen"
  by (simp add: deque_append_def Let_def)

lemma deque_append_last:
  "length d \<le> maxlen \<Longrightarrow>
   deque_append d x = drop (length d + 1 - maxlen) (d @ [x])"
proof (cases "length d < maxlen")
  case True
  then show ?thesis by (simp add: deque_append_def Let_def)
next
  case False
  assume "length d \<le> maxlen"
  with False have len: "length d = maxlen" by simp
  then have "d \<noteq> []" by (auto simp: maxlen_def)
  then obtain y ys where "d = y # ys" by (cases d) auto
  with len show ?thesis by (simp add: deque_append_def Let_def)
qed

lemma drop_append_within:
  "n \<le> length xs \<Longrightarrow> drop n xs @ ys = drop n (xs @ ys)"
  by simp

lemma add_messages_messages:
  "length (messages s) \<le> maxlen \<Longrightarrow>
   messages (add_messages cs s) =
     drop (length (messages s) + length cs - maxlen) (messages s @ map message_of cs)"
proof (induction cs arbitrary: s)
  case Nil
  then show ?case by simp
next
  case (Cons c cs)
  obtain now r ct md where c: "c = (now, r, ct, md)" by (cases c) auto
  let ?m = "\<lparr>role = r, content = ct, timestamp = now, metadata = or_empty md\<rparr>"
  let ?s = "add_message now r ct md s"
  let ?k1 = "length (messages s) + 1 - maxlen"
  let ?all = "messages s @ map message_of (c # cs)"
  have m: "message_of c = ?m" by (simp add: c message_of_def)
  have ms: "messages ?s = drop ?k1 (messages s @ [?m])"
    using Cons.prems by (simp add: add_message_def deque_append_last)
  have len: "length (messages ?s) \<le> maxlen"
    using Cons.prems by (simp add: add_message_def deque_append_length)
  have len_eq: "length (messages ?s) = length (messages s) + 1 - ?k1"
    by (simp add: ms)
  have k1: "?k1 \<le> length (messages s @ [?m])" by simp
  have app: "messages ?s @ map message_of cs = drop ?k1 ?all"
    unfolding ms drop_append_within [OF k1] by (simp add: m)
  have "messages (add_messages (c # cs) s) = messages (add_messages cs ?s)"
    by (simp add: c)
  also have "\<dots> = drop (length (messages ?s) + length cs - maxlen)
                     (messages ?s @ map message_of cs)"
    using Cons.IH [OF len] .
  also have "\<dots> = drop (length (messages ?s) + length cs - maxlen + ?k1) ?all"
    unfolding app by (simp only: drop_drop)
  also have "length (messages ?s) + length cs - maxlen + ?k1 =
             length (messages s) + length (c # cs) - maxlen"
    using Cons.prems unfolding len_eq by simp
  finally show ?case .
qed

text \<open>
  C4. Starting from any session whose deque respects its bound, after N > 100 calls
  of \<open>add_message\<close> the session holds exactly 100 messages: the 100 most recently
  added ones, in the order they were added. \<open>add_message\<close> has no failing branch
  (\<open>deque.append\<close> with a \<open>maxlen\<close> discards silently), so the model is a total
  function returning the updated session.
\<close>

theorem add_message_bounded_history:
  assumes "length (messages s) \<le> 100" and "length cs > 100"
  shows "messages (add_messages cs s) = map message_of (drop (length cs - 100) cs)
       \<and> length (messages (add_messages cs s)) = 100"
proof -
  have "messages (add_messages cs s) =
        drop (length (messages s) + length cs - maxlen) (messages s @ map message_of cs)"
    using assms(1) by (intro add_messages_messages) (simp add: maxlen_def)
  also have "\<dots> = map message_of (drop (length cs - 100) cs)"
    using assms by (simp add: maxlen_def drop_map)
  finally have eq: "messages (add_messages cs s) = map message_of (drop (length cs - 100) cs)" .
  then show ?thesis using assms(2) by simp
qed

theorem add_message_bounded_history_witness:
  "length (messages session0) \<le> 100 \<and> length calls101 > 100
   \<and> messages (add_messages calls101 session0) =
       map message_of (drop (length calls101 - 100) calls101)
   \<and> length (messages (add_messages calls101 session0)) = 100"
proof -
  have h1: "length (messages session0) \<le> 100" by (simp add: session0_def)
  have h2: "length calls101 > 100" by (simp add: calls101_def)
  show ?thesis using h1 h2 add_message_bounded_history [OF h1 h2] by simp
qed


section \<open>Conversation context\<close>

lemma get_context_positive:
  "0 < n \<Longrightarrow>
   get_context n s =
     map (\<lambda>msg. (role msg, content msg)) (drop (length (messages s) - nat n) (messages s))"
proof -
  assume n: "0 < n"
  then have "nat (int (length (messages s)) + - n) = length (messages s) - nat n"
    by linarith
  with n show ?thesis by (simp add: get_context_def slice_from_def)
qed

lemma get_context_positive_length:
  "0 < n \<Longrightarrow> length (get_context n s) = min (nat n) (length (messages s))"
  by (simp add: get_context_positive)

text \<open>
  C8 at \<open>max_messages = 0\<close>: the slice \<open>[-0:]\<close> is \<open>[0:]\<close>, the whole list, so a
  session holding one message answers with that message where the claim asks for
  \<open>min(0, 1) = 0\<close> messages.
\<close>

theorem get_context_zero_returns_all:
  "get_context 0 (session0\<lparr>messages :=
      [\<lparr>role = ''user'', content = ''hi'', timestamp = 0, metadata = []\<rparr>]\<rparr>)
   = [(''user'', ''hi'')]"
  by (simp add: get_context_def slice_from_def)


section \<open>Session eviction\<close>

lemma update_fresh:
  "k \<notin> fst ` set al \<Longrightarrow> AList.update k v al = al @ [(k, v)]"
  by (induction al) auto

lemma foldl_delete_filter:
  "foldl (\<lambda>d x. AList.delete (fst x) d) al rem = filter (\<lambda>kv. fst kv \<notin> fst ` set rem) al"
proof (induction rem arbitrary: al)
  case Nil
  then show ?case by simp
next
  case (Cons r rem)
  have "AList.delete (fst r) al = filter (\<lambda>kv. fst kv \<noteq> fst r) al"
    by (induction al) (auto simp: AList.delete_eq)
  then show ?case using Cons.IH by (auto intro: filter_cong)
qed

lemma insort_key_snoc:
  "f a \<le> f x \<Longrightarrow> \<forall>y\<in>set ys. f y \<le> f x \<Longrightarrow> insort_key f a (ys @ [x]) = insort_key f a ys @ [x]"
  by (induction ys) auto

lemma sort_key_snoc:
  "\<forall>y\<in>set xs. f y \<le> f x \<Longrightarrow> sort_key f (xs @ [x]) = sort_key f xs @ [x]"
proof (induction xs)
  case Nil
  then show ?case by simp
next
  case (Cons a xs)
  then have "sort_key f ((a # xs) @ [x]) = insort_key f a (sort_key f xs @ [x])" by simp
  also have "\<dots> = insort_key f a (sort_key f xs) @ [x]"
    using Cons.prems by (intro insort_key_snoc) auto
  finally show ?case by simp
qed

lemma evict_set:
  assumes "distinct (map fst xs)"
  shows "set (evict k xs) = set (drop k (sort_key (\<lambda>x. created_at (snd x)) xs))"
proof -
  let ?s = "sort_key (\<lambda>x. created_at (snd x)) xs"
  have dxs: "distinct xs" and inj: "inj_on fst (set xs)"
    using assms by (auto simp: distinct_map)
  have "distinct (map fst ?s)" using dxs inj by (simp add: distinct_map)
  then have "distinct (map fst (take k ?s @ drop k ?s))" by simp
  then have disj: "fst ` set (take k ?s) \<inter> fst ` set (drop k ?s) = {}"
    unfolding map_append distinct_append by simp
  have un: "set xs = set (take k ?s) \<union> set (drop k ?s)"
    by (metis append_take_drop_id set_append set_sort)
  show ?thesis
    unfolding evict_def foldl_delete_filter using disj un by auto
qed

lemma evict_length:
  assumes "distinct (map fst xs)"
  shows "length (evict k xs) = length xs - k"
proof -
  let ?s = "sort_key (\<lambda>x. created_at (snd x)) xs"
  have dxs: "distinct xs" using assms by (auto simp: distinct_map)
  have "distinct (evict k xs)" unfolding evict_def foldl_delete_filter using dxs by simp
  then have "length (evict k xs) = card (set (evict k xs))" by (simp add: distinct_card)
  also have "\<dots> = card (set (drop k ?s))" using evict_set [OF assms] by simp
  also have "\<dots> = length (drop k ?s)" using dxs by (simp add: distinct_card)
  finally show ?thesis by simp
qed

lemma evict_oldest:
  assumes "distinct (map fst xs)" "r \<in> set xs" "r \<notin> set (evict k xs)" "q \<in> set (evict k xs)"
  shows "created_at (snd r) \<le> created_at (snd q)"
proof -
  let ?f = "\<lambda>x. created_at (snd x)"
  let ?s = "sort_key ?f xs"
  have q: "q \<in> set (drop k ?s)" using assms(4) evict_set [OF assms(1)] by simp
  have "r \<in> set (take k ?s) \<union> set (drop k ?s)"
    using assms(2) by (metis append_take_drop_id set_append set_sort)
  then have r: "r \<in> set (take k ?s)" using assms(3) evict_set [OF assms(1)] by simp
  have "sorted (map ?f (take k ?s @ drop k ?s))" by simp
  then have "\<forall>x\<in>set (map ?f (take k ?s)). \<forall>y\<in>set (map ?f (drop k ?s)). x \<le> y"
    unfolding map_append sorted_append by blast
  then show ?thesis using q r by auto
qed

lemma evict_subseq: "subseq (evict k xs) xs"
  unfolding evict_def foldl_delete_filter by (rule subseq_filter_left)

lemma evict_keeps_newest:
  assumes "\<forall>y\<in>set xs. created_at (snd y) \<le> created_at (snd x)" "fst x \<notin> fst ` set xs"
    "distinct (map fst xs)" "k \<le> length xs"
  shows "x \<in> set (evict k (xs @ [x]))"
proof -
  let ?f = "\<lambda>x. created_at (snd x)"
  have d: "distinct (map fst (xs @ [x]))" using assms by simp
  have "sort_key ?f (xs @ [x]) = sort_key ?f xs @ [x]"
    using assms(1) by (rule sort_key_snoc)
  then have "drop k (sort_key ?f (xs @ [x])) = drop k (sort_key ?f xs) @ [x]"
    using assms(4) by simp
  then show ?thesis using evict_set [OF d, of k] by simp
qed

lemma cleanup_evict:
  assumes "0 \<le> max_sessions sm" "int (length (sessions sm)) > max_sessions sm"
  shows "sessions (cleanup_old_sessions sm) =
         evict (length (sessions sm) - nat (max_sessions sm)) (sessions sm)"
proof -
  have "nat (int (length (sessions sm)) - max_sessions sm) =
        length (sessions sm) - nat (max_sessions sm)"
    using assms by linarith
  then show ?thesis
    using assms by (simp add: cleanup_old_sessions_def Let_def slice_to_def evict_def)
qed

lemma create_session_sessions:
  assumes "0 \<le> max_sessions sm"
  shows "sessions (snd (create_session sid now uid md sm)) =
     (let stored = AList.update sid (fst (create_session sid now uid md sm)) (sessions sm)
      in evict (length stored - nat (max_sessions sm)) stored)"
proof -
  let ?s = "\<lparr>id_s = sid, user_id = uid, created_at = now, messages = [],
             metadata_s = or_empty md\<rparr>"
  let ?sm1 = "sm\<lparr>sessions := AList.update sid ?s (sessions sm)\<rparr>"
  have fst: "fst (create_session sid now uid md sm) = ?s"
    by (simp add: create_session_def Let_def)
  show ?thesis
  proof (cases "int (length (sessions ?sm1)) > max_sessions ?sm1")
    case True
    then have "sessions (snd (create_session sid now uid md sm)) =
               sessions (cleanup_old_sessions ?sm1)"
      by (simp add: create_session_def Let_def)
    also have "\<dots> = evict (length (sessions ?sm1) - nat (max_sessions ?sm1)) (sessions ?sm1)"
      using assms True by (intro cleanup_evict) simp_all
    finally show ?thesis by (simp add: fst Let_def)
  next
    case False
    then have "length (sessions ?sm1) - nat (max_sessions sm) = 0"
      using assms by simp
    moreover have "sessions (snd (create_session sid now uid md sm)) = sessions ?sm1"
      using False by (simp add: create_session_def Let_def)
    ultimately show ?thesis by (simp add: fst Let_def evict_def)
  qed
qed

text \<open>
  C3 (as amended). For a session manager with \<open>max_sessions \<ge> 0\<close>, after
  \<open>create_session\<close> the number of stored sessions does not exceed \<open>max_sessions\<close>;
  the sessions kept are the stored ones (the new one included) less exactly the surplus,
  in their insertion order, and every evicted session was created no later than every
  session kept. The new session is kept when \<open>max_sessions \<ge> 1\<close>, its id is fresh and
  no stored session has a later creation time.
\<close>

theorem create_session_evicts_oldest:
  assumes dist: "distinct (map fst (sessions sm))"
      and max0: "0 \<le> max_sessions sm"
      and call: "create_session sid now uid md sm = (s, sm')"
      and stored: "stored = AList.update sid s (sessions sm)"
  shows "int (length (sessions sm')) \<le> max_sessions sm'
       \<and> length (sessions sm') = min (length stored) (nat (max_sessions sm))
       \<and> subseq (sessions sm') stored
       \<and> (\<forall>r\<in>set stored. \<forall>q\<in>set (sessions sm').
             r \<notin> set (sessions sm') \<longrightarrow> created_at (snd r) \<le> created_at (snd q))
       \<and> (1 \<le> max_sessions sm \<and> sid \<notin> fst ` set (sessions sm)
            \<and> (\<forall>q\<in>set (sessions sm). created_at (snd q) \<le> now)
           \<longrightarrow> (sid, s) \<in> set (sessions sm'))"
proof -
  let ?k = "length stored - nat (max_sessions sm)"
  have s: "s = fst (create_session sid now uid md sm)"
   and sm': "sm' = snd (create_session sid now uid md sm)"
    using call by simp_all
  have after: "sessions sm' = evict ?k stored"
    unfolding sm' stored s using create_session_sessions [OF max0] by (simp add: Let_def)
  have max': "max_sessions sm' = max_sessions sm"
    unfolding sm' by (simp add: create_session_def cleanup_old_sessions_def Let_def)
  have created: "created_at s = now"
    unfolding s by (simp add: create_session_def Let_def)
  have dstored: "distinct (map fst stored)"
    unfolding stored using dist by (rule AList.distinct_update)
  have len: "length (sessions sm') = length stored - ?k"
    unfolding after by (rule evict_length [OF dstored])
  have c1: "int (length (sessions sm')) \<le> max_sessions sm'"
    unfolding max' len using max0 by linarith
  have c2: "length (sessions sm') = min (length stored) (nat (max_sessions sm))"
    unfolding len by simp
  have c3: "subseq (sessions sm') stored"
    unfolding after by (rule evict_subseq)
  have c4: "\<forall>r\<in>set stored. \<forall>q\<in>set (sessions sm').
             r \<notin> set (sessions sm') \<longrightarrow> created_at (snd r) \<le> created_at (snd q)"
    unfolding after using evict_oldest [OF dstored] by blast
  have c5: "(sid, s) \<in> set (sessions sm')"
    if "1 \<le> max_sessions sm" and fresh: "sid \<notin> fst ` set (sessions sm)"
      and old: "\<forall>q\<in>set (sessions sm). created_at (snd q) \<le> now"
  proof -
    have app: "stored = sessions sm @ [(sid, s)]"
      unfolding stored using fresh by (rule update_fresh)
    have "length (sessions sm) + 1 - nat (max_sessions sm) \<le> length (sessions sm)"
      using that(1) by linarith
    then have "(sid, s) \<in> set (evict (length (sessions sm) + 1 - nat (max_sessions sm))
                                  (sessions sm @ [(sid, s)]))"
      using old fresh dist created by (intro evict_keeps_newest) simp_all
    then show ?thesis unfolding after app by simp
  qed
  from c1 c2 c3 c4 c5 show ?thesis by blast
qed

theorem create_session_evicts_oldest_witness:
  "distinct (map fst (sessions sm_full)) \<and> 0 \<le> max_sessions sm_full
   \<and> 1 \<le> max_sessions sm_full \<and> ''c'' \<notin> fst ` set (sessions sm_full)
   \<and> list_all (\<lambda>q. created_at (snd q) \<le> 3) (sessions sm_full)
   \<and> map fst (sessions (snd (create_session ''c'' 3 ''v'' None sm_full))) = [''a'', ''c'']
   \<and> int (length (sessions (snd (create_session ''c'' 3 ''v'' None sm_full))))
        \<le> max_sessions (snd (create_session ''c'' 3 ''v'' None sm_full))
   \<and> (''c'', fst (create_session ''c'' 3 ''v'' None sm_full))
        \<in> set (sessions (snd (create_session ''c'' 3 ''v'' None sm_full)))"
proof -
  have d: "distinct (map fst (sessions sm_full))" and m: "0 \<le> max_sessions sm_full"
    by (simp_all add: sm_full_def)
  have side: "1 \<le> max_sessions sm_full \<and> ''c'' \<notin> fst ` set (sessions sm_full)
              \<and> list_all (\<lambda>q. created_at (snd q) \<le> 3) (sessions sm_full)"
    by (simp add: sm_full_def)
  have ev: "map fst (sessions (snd (create_session ''c'' 3 ''v'' None sm_full))) = [''a'', ''c'']"
    by (simp add: sm_full_def create_session_def cleanup_old_sessions_def Let_def
        slice_to_def or_empty_def)
  show ?thesis
    using d m side ev
      create_session_evicts_oldest [OF d m prod.collapse [symmetric] refl,
        of "''c''" 3 "''v''" None]
    unfolding list_all_iff by blast
qed

text \<open>
  C3 as stated fails: with \<open>max_sessions = 0\<close> the session just created is the
  surplus, and \<open>create_session\<close> returns a session that is no longer stored; and
  with a negative \<open>max_sessions\<close> the cleanup empties the store, whose size, 0, still
  exceeds the bound.
\<close>

theorem create_session_new_evicted_counterexample:
  "map_of (sessions (snd (create_session ''a'' 0 ''u'' None
      \<lparr>sessions = [], max_sessions = 0\<rparr>))) ''a'' = None
   \<and> int (length (sessions (snd (create_session ''c'' 3 ''u'' None (sm_full\<lparr>max_sessions := - 1\<rparr>)))))
       > max_sessions (snd (create_session ''c'' 3 ''u'' None (sm_full\<lparr>max_sessions := - 1\<rparr>)))"
  by (simp add: create_session_def cleanup_old_sessions_def Let_def slice_to_def or_empty_def
      sm_full_def)


section \<open>Memory search\<close>

lemma contains_sublist: "contains q v \<longleftrightarrow> sublist q v"
  by (induction v) (auto simp: sublist_Cons_right)

lemma search_loop_filter:
  "search_loop lw cat query es acc =
     acc @ filter (\<lambda>e. \<not> (case cat of None \<Rightarrow> False | Some c \<Rightarrow> c \<noteq> [] \<and> category e \<noteq> c)
                     \<and> \<not> (case query of None \<Rightarrow> False
                            | Some q \<Rightarrow> q \<noteq> [] \<and> \<not> contains (lw q) (lw (value_e e)))) es"
  by (induction es arbitrary: acc) simp_all

lemma sublist_take_drop:
  "sublist xs ys \<longleftrightarrow> (\<exists>i\<le>length ys. take (length xs) (drop i ys) = xs)"
proof
  assume "sublist xs ys"
  then obtain ps ss where "ys = ps @ xs @ ss" by (auto simp: sublist_def)
  then have "length ps \<le> length ys \<and> take (length xs) (drop (length ps) ys) = xs" by simp
  then show "\<exists>i\<le>length ys. take (length xs) (drop i ys) = xs" by blast
next
  assume "\<exists>i\<le>length ys. take (length xs) (drop i ys) = xs"
  then obtain i where "take (length xs) (drop i ys) = xs" by blast
  then have "ys = take i ys @ xs @ drop (length xs) (drop i ys)"
    by (metis append_take_drop_id)
  then show "sublist xs ys" unfolding sublist_def by blast
qed

lemma lower_char_same_letter:
  assumes "ascii a" and "ascii b"
  shows "lower_char a = lower_char b \<longleftrightarrow> same_letter a b"
proof -
  have c: "char_of (m :: nat) = x \<longleftrightarrow> m = of_char x" if "m < 256" for m x
  proof -
    have "char_of m = x \<longleftrightarrow> (of_char (char_of m) :: nat) = of_char x"
      by (simp only: of_char_eq_iff)
    also have "\<dots> \<longleftrightarrow> m = of_char x" using that by simp
    finally show ?thesis .
  qed
  have c': "x = char_of (m :: nat) \<longleftrightarrow> of_char x = m" if "m < 256" for m x
    using c [OF that, of x] by auto
  have d: "(a = b) \<longleftrightarrow> (of_char a :: nat) = of_char b" by simp
  show ?thesis
    using assms unfolding lower_char_def same_letter_def ascii_def Let_def
    by (auto simp: c c' d simp del: of_char_eq_iff)
qed

text \<open>On ASCII text, comparing the lower-cased forms is containment without regard to case.\<close>

lemma lower_caseless:
  assumes q: "list_all ascii q" and v: "list_all ascii v"
  shows "sublist (lower q) (lower v) \<longleftrightarrow> caseless_in q v"
proof -
  have eq: "take (length q) (drop i (lower v)) = lower q
            \<longleftrightarrow> list_all2 same_letter q (take (length q) (drop i v))" for i
  proof -
    have "take (length q) (drop i (lower v)) = lower q
          \<longleftrightarrow> map lower_char q = map lower_char (take (length q) (drop i v))"
      by (auto simp: lower_def take_map drop_map)
    also have "\<dots> \<longleftrightarrow> list_all2 (\<lambda>a b. lower_char a = lower_char b) q (take (length q) (drop i v))"
      by (simp add: list.rel_map list.rel_eq [symmetric])
    also have "\<dots> \<longleftrightarrow> list_all2 same_letter q (take (length q) (drop i v))"
    proof (rule list.rel_cong [OF refl refl])
      fix a b assume "a \<in> set q" and "b \<in> set (take (length q) (drop i v))"
      then have "ascii a" and "ascii b"
        using q v by (auto simp: list_all_iff dest: in_set_takeD in_set_dropD)
      then show "(lower_char a = lower_char b) = same_letter a b"
        by (rule lower_char_same_letter)
    qed
    finally show ?thesis .
  qed
  have len: "length (lower s) = length s" for s by (simp add: lower_def)
  have "sublist (lower q) (lower v)
        \<longleftrightarrow> (\<exists>i\<le>length v. list_all2 same_letter q (take (length q) (drop i v)))"
    by (simp add: sublist_take_drop len eq)
  also have "\<dots> \<longleftrightarrow> caseless_in q v"
    unfolding caseless_in_def list_ex_iff set_upt Bex_def atLeastLessThan_iff less_Suc_eq_le
    by simp
  finally show ?thesis .
qed

lemma lower_Nil: "lower [] = []" by (simp add: lower_def)

lemma search_ascii:
  assumes s: "list_all ascii s"
      and b: "list_all (\<lambda>e. list_all ascii (value_e e)) (map snd (memories bank))"
  shows "search lower cat (Some s) bank =
           filter (\<lambda>e. caseless_in s (value_e e)) (search lower cat None bank)"
proof -
  have "(s \<noteq> [] \<and> \<not> contains (lower s) (lower (value_e e))) \<longleftrightarrow> \<not> caseless_in s (value_e e)"
    if "e \<in> set (map snd (memories bank))" for e
  proof -
    have "list_all ascii (value_e e)" using b that by (auto simp: list_all_iff)
    then have "sublist (lower s) (lower (value_e e)) \<longleftrightarrow> caseless_in s (value_e e)"
      using s by (simp add: lower_caseless)
    then show ?thesis by (cases "s = []") (auto simp: contains_sublist lower_Nil)
  qed
  then have "filter (\<lambda>e. \<not> (case cat of None \<Rightarrow> False | Some c \<Rightarrow> c \<noteq> [] \<and> category e \<noteq> c)
                       \<and> \<not> (s \<noteq> [] \<and> \<not> contains (lower s) (lower (value_e e))))
               (map snd (memories bank)) =
             filter (\<lambda>e. \<not> (case cat of None \<Rightarrow> False | Some c \<Rightarrow> c \<noteq> [] \<and> category e \<noteq> c)
                       \<and> caseless_in s (value_e e))
               (map snd (memories bank))"
    by (intro filter_cong refl) auto
  then show ?thesis
    by (simp add: search_def search_loop_filter conj_commute)
qed

text \<open>
  C7 (as amended). Whatever the code points and whatever \<open>str.lower\<close> does to
  them: for a non-empty category string \<open>c\<close> and a non-empty query string \<open>q\<close>,
  \<open>search\<close> returns exactly the entries whose category equals \<open>c\<close> and whose
  value, lower-cased, contains the lower-cased \<open>q\<close> as a substring, both filters
  together when both are given, every entry when both are omitted, in the order of the
  backing dictionary. An empty category string and an empty query string are treated
  as omitted ones. When the query and the stored values are ASCII text, the entries
  that a query selects are those whose value contains it without regard to case.
\<close>

theorem search_filters:
  assumes "c \<noteq> []" and "q \<noteq> []"
  shows "search lw (Some c) (Some q) mb =
           filter (\<lambda>e. category e = c \<and> sublist (lw q) (lw (value_e e)))
             (map snd (memories mb))
       \<and> search lw (Some c) None mb = filter (\<lambda>e. category e = c) (map snd (memories mb))
       \<and> search lw None (Some q) mb =
           filter (\<lambda>e. sublist (lw q) (lw (value_e e))) (map snd (memories mb))
       \<and> search lw None None mb = map snd (memories mb)
       \<and> search lw (Some []) (Some q) mb = search lw None (Some q) mb
       \<and> search lw (Some []) None mb = search lw None None mb
       \<and> search lw (Some c) (Some []) mb = search lw (Some c) None mb
       \<and> search lw None (Some []) mb = search lw None None mb
       \<and> (list_all ascii s
            \<and> list_all (\<lambda>e. list_all ascii (value_e e)) (map snd (memories bank))
          \<longrightarrow> search lower cat (Some s) bank =
                filter (\<lambda>e. caseless_in s (value_e e)) (search lower cat None bank))"
  using assms search_ascii [of s bank cat]
  by (simp add: search_def search_loop_filter contains_sublist)

theorem search_filters_witness:
  "''insight'' \<noteq> [] \<and> ''sales'' \<noteq> [] \<and> ''SALES'' \<noteq> []
   \<and> list_all ascii ''SALES''
   \<and> list_all (\<lambda>e. list_all ascii (value_e e)) (map snd (memories bank2))
   \<and> search lower (Some ''insight'') None bank2 = [snd (memories bank2 ! 0)]
   \<and> search lower None (Some ''sales'') bank2 = map snd (memories bank2)
   \<and> search lower (Some ''insight'') (Some ''SALES'') bank2 = [snd (memories bank2 ! 0)]
   \<and> search lower (Some ''insight'') (Some ''SALES'') bank2 =
       filter (\<lambda>e. caseless_in ''SALES'' (value_e e)) (search lower (Some ''insight'') None bank2)"
proof -
  have h: "''insight'' \<noteq> []" "''sales'' \<noteq> []" "''SALES'' \<noteq> []" by simp_all
  have a1: "list_all ascii ''SALES''" by code_simp
  have a2: "list_all (\<lambda>e. list_all ascii (value_e e)) (map snd (memories bank2))"
    unfolding bank2_def by code_simp
  have s1: "sublist (lower ''sales'') (lower ''Sales up'')"
    unfolding contains_sublist [symmetric] by code_simp
  have s2: "sublist (lower ''sales'') (lower ''likes sales'')"
    unfolding contains_sublist [symmetric] by code_simp
  have s3: "lower ''SALES'' = lower ''sales''"
    by code_simp
  note t1 = search_filters [OF h(1) h(2), where lw = lower and mb = bank2 and s = "''SALES''"
      and bank = bank2 and cat = "Some ''insight''"]
  note t2 = search_filters [OF h(1) h(3), where lw = lower and mb = bank2 and s = "''SALES''"
      and bank = bank2 and cat = "Some ''insight''"]
  have p1: "search lower (Some ''insight'') None bank2 = [snd (memories bank2 ! 0)]"
    and p2: "search lower None (Some ''sales'') bank2 = map snd (memories bank2)"
    using t1 s1 s2 by (simp_all add: bank2_def)
  have p3: "search lower (Some ''insight'') (Some ''SALES'') bank2 = [snd (memories bank2 ! 0)]"
    using t2 s1 s2 unfolding s3 by (simp add: bank2_def)
  have p4: "search lower (Some ''insight'') (Some ''SALES'') bank2 =
       filter (\<lambda>e. caseless_in ''SALES'' (value_e e)) (search lower (Some ''insight'') None bank2)"
    using t2 a1 a2 by blast
  show ?thesis using h a1 a2 p1 p2 p3 p4 by blast
qed

text \<open>
  C7 as stated fails for the category \<open>""\<close>: no entry of the example has that
  category, and the search returns both. It also fails for text outside ASCII: the
  stored Greek word begins with the two letters of the query, and the search does not
  return it, because the lower-cased query ends in a final sigma.
\<close>

theorem search_empty_category_counterexample:
  "search lower (Some []) None bank2 \<noteq> filter (\<lambda>e. category e = []) (map snd (memories bank2))
   \<and> prefix [913, 931] (value_e (snd (memories bank_sigma ! 0)))
   \<and> search lower_sigma None (Some [913, 931]) bank_sigma = []"
proof -
  have "\<not> contains [945, 962] [945, 963, 945 :: nat]" by simp
  then show ?thesis
    by (simp add: search_def bank2_def bank_sigma_def lower_sigma_def)
qed


section \<open>Memory persistence\<close>

lemma map_of_update_same: "map_of (AList.update k v al) k = Some v"
  by (simp add: AList.update_conv')

lemma store_memories:
  "map_of (memories (snd (store io now k v cat md mb))) k =
     Some \<lparr>key = k, value_e = v, category = cat, timestamp_e = now, metadata_e = or_empty md\<rparr>"
  by (simp add: store_def save_memories_def Let_def map_of_update_same split: option.splits)

lemma store_swallows_write_failure:
  "mkdir_outcome io = None \<Longrightarrow> fst (store io now k v cat md mb) = None"
  by (simp add: store_def save_memories_def Let_def split: option.splits)

lemma store_raises_iff:
  "fst (store io now k v cat md mb) = mkdir_outcome io"
  by (simp add: store_def save_memories_def Let_def split: option.splits)

text \<open>
  C9 where creating the storage directory fails: the exception of \<open>mkdir\<close> is
  raised outside the \<open>try\<close> of \<open>_save_memories\<close> and reaches the caller of
  \<open>store\<close>; the in-memory entry is there all the same.
\<close>

theorem store_mkdir_failure_raises:
  "fst (store fs_no_dir 0 ''k'' ''v'' ''general'' None bank0) = Some (OSError ''Permission denied'')
   \<and> retrieve ''k'' (snd (store fs_no_dir 0 ''k'' ''v'' ''general'' None bank0)) = Some ''v''"
  by (simp add: store_raises_iff retrieve_def store_memories fs_no_dir_def)


section \<open>Metrics summary\<close>

text \<open>
  C6 (as amended). Two calls of \<open>get_summary\<close> on the same collector state return
  the same counters and the same timer statistics; the \<open>timestamp\<close> field is the
  clock reading of each call, so the two structures are equal as a whole exactly when
  the two readings are equal or the collector is disabled (both are then \<open>{}\<close>).
\<close>

theorem get_summary_repeatable:
  "s_counters (get_summary t1 mc) = s_counters (get_summary t2 mc)
   \<and> s_timers (get_summary t1 mc) = s_timers (get_summary t2 mc)
   \<and> (get_summary t1 mc = get_summary t2 mc \<longleftrightarrow> t1 = t2 \<or> \<not> enabled_m mc)"
  by (simp add: get_summary_def)

theorem get_summary_repeatable_witness:
  "s_counters (get_summary 1 mc1) = [(''coordinator.analysis_requests'', 2)]
   \<and> s_counters (get_summary 2 mc1) = [(''coordinator.analysis_requests'', 2)]
   \<and> s_timers (get_summary 1 mc1) = s_timers (get_summary 2 mc1)
   \<and> map fst (s_timers (get_summary 1 mc1)) = [''coordinator.analysis_duration'']
   \<and> get_summary 1 mc1 \<noteq> get_summary 2 mc1
   \<and> get_summary 1 mc1 = get_summary 1 mc1"
  using get_summary_repeatable [of 1 mc1 2] get_summary_repeatable [of 1 mc1 1]
  by (simp add: get_summary_def mc1_def)

text \<open>
  C6 as stated fails: the summaries taken at two different clock readings differ in
  their \<open>timestamp\<close> field.
\<close>

theorem get_summary_timestamp_counterexample:
  "get_summary 1 mc1 \<noteq> get_summary 2 mc1"
  by (simp add: get_summary_def mc1_def)

section \<open>Span nesting\<close>

lemma wf_tracer_iff:
  "wf_tracer t \<longleftrightarrow>
     (\<forall>a\<in>set (spans t). a < length (heap t)) \<and>
     (\<forall>a\<in>set (active_spans t). a < length (heap t)) \<and>
     (\<forall>a<length (heap t). \<forall>c\<in>set (children (heap t ! a)). a < c \<and> c < length (heap t)) \<and>
     sorted_wrt (<) (spans t) \<and>
     (\<forall>a<length (heap t). sorted_wrt (<) (children (heap t ! a)))"
  unfolding wf_tracer_def Let_def list_all_iff by (simp add: Ball_def)

lemma extends_iff:
  "extends clk w w' \<longleftrightarrow>
     enabled (tracer w') = enabled (tracer w) \<and>
     active_spans (tracer w') = active_spans (tracer w) \<and>
     prefix (spans (tracer w)) (spans (tracer w')) \<and>
     ticks w \<le> ticks w' \<and>
     length (heap (tracer w)) \<le> length (heap (tracer w')) \<and>
     (\<forall>a<length (heap (tracer w)). same_span (heap (tracer w) ! a) (heap (tracer w') ! a)) \<and>
     (mono clk \<longrightarrow>
        (\<forall>a. length (heap (tracer w)) \<le> a \<and> a < length (heap (tracer w'))
            \<longrightarrow> closed_ok (heap (tracer w') ! a)))"
  unfolding extends_def Let_def list_all_iff by (simp add: Ball_def)

lemma same_span_refl: "same_span s s"
  by (simp add: same_span_def)

lemma same_span_trans: "same_span s s' \<Longrightarrow> same_span s' s'' \<Longrightarrow> same_span s s''"
  by (auto simp: same_span_def)

lemma extends_refl: "extends clk w w"
  unfolding extends_iff by (auto simp: same_span_refl)

lemma extends_trans:
  assumes "extends clk w w'" "extends clk w' w''"
  shows "extends clk w w''"
proof -
  let ?h = "heap (tracer w)" and ?h' = "heap (tracer w')" and ?h'' = "heap (tracer w'')"
  have old: "same_span (?h ! a) (?h'' ! a)" if "a < length ?h" for a
  proof -
    have "same_span (?h ! a) (?h' ! a)" using assms(1) that by (simp add: extends_iff)
    moreover have "same_span (?h' ! a) (?h'' ! a)"
      using assms that by (simp add: extends_iff)
    ultimately show ?thesis by (rule same_span_trans)
  qed
  have new: "closed_ok (?h'' ! a)" if "mono clk" "length ?h \<le> a" "a < length ?h''" for a
  proof (cases "a < length ?h'")
    case True
    then have "closed_ok (?h' ! a)" using assms(1) that by (simp add: extends_iff)
    moreover have "same_span (?h' ! a) (?h'' ! a)" using assms(2) True by (simp add: extends_iff)
    ultimately show ?thesis by (simp add: closed_ok_def same_span_def)
  next
    case False
    then show ?thesis using assms(2) that by (simp add: extends_iff)
  qed
  have e: "enabled (tracer w'') = enabled (tracer w)"
    and a: "active_spans (tracer w'') = active_spans (tracer w)"
    and t: "ticks w \<le> ticks w''" and l: "length ?h \<le> length ?h''"
    using assms by (simp_all add: extends_iff)
  have "prefix (spans (tracer w)) (spans (tracer w'))"
    and "prefix (spans (tracer w')) (spans (tracer w''))"
    using assms by (simp_all add: extends_iff)
  then have p: "prefix (spans (tracer w)) (spans (tracer w''))"
    by (rule prefix_order.order_trans)
  show ?thesis
    unfolding extends_iff [of clk w w''] using e a t l p old new by (intro conjI allI impI) simp_all
qed

lemma span_enter_disabled:
  "\<not> enabled (tracer w) \<Longrightarrow> span_enter clk n md w = (None, w)"
  by (simp add: span_enter_def)

lemma span_enter_fields:
  assumes "enabled (tracer w)"
  shows "fst (span_enter clk n md w) = Some (length (heap (tracer w)))"
    and "ticks (snd (span_enter clk n md w)) = Suc (ticks w)"
    and "collector (snd (span_enter clk n md w)) = collector w"
    and "session_manager (snd (span_enter clk n md w)) = session_manager w"
    and "memory_bank (snd (span_enter clk n md w)) = memory_bank w"
    and "enabled (tracer (snd (span_enter clk n md w)))"
    and "active_spans (tracer (snd (span_enter clk n md w))) =
           active_spans (tracer w) @ [length (heap (tracer w))]"
    and "spans (tracer (snd (span_enter clk n md w))) =
           (if active_spans (tracer w) = [] then spans (tracer w) @ [length (heap (tracer w))]
            else spans (tracer w))"
    and "heap (tracer (snd (span_enter clk n md w))) =
           (let h = heap (tracer w) @ [new_span clk n md w]
            in if active_spans (tracer w) = [] then h
               else h[last (active_spans (tracer w)) :=
                      (h ! last (active_spans (tracer w)))
                        \<lparr>children := children (h ! last (active_spans (tracer w)))
                                      @ [length (heap (tracer w))]\<rparr>])"
  using assms
  by (simp_all add: span_enter_def read_clock_def Let_def new_span_def)

lemma span_exit_fields:
  assumes "active_spans (tracer w) \<noteq> []"
  shows "fst (span_exit clk (Some a) w) = None"
    and "ticks (snd (span_exit clk (Some a) w)) = Suc (ticks w)"
    and "collector (snd (span_exit clk (Some a) w)) = collector w"
    and "session_manager (snd (span_exit clk (Some a) w)) = session_manager w"
    and "memory_bank (snd (span_exit clk (Some a) w)) = memory_bank w"
    and "enabled (tracer (snd (span_exit clk (Some a) w))) = enabled (tracer w)"
    and "active_spans (tracer (snd (span_exit clk (Some a) w))) = butlast (active_spans (tracer w))"
    and "spans (tracer (snd (span_exit clk (Some a) w))) = spans (tracer w)"
    and "heap (tracer (snd (span_exit clk (Some a) w))) =
           (heap (tracer w))[a := (heap (tracer w) ! a)\<lparr>end_time := Some (clk (ticks w))\<rparr>]"
  using assms
  by (simp_all add: span_exit_def read_clock_def Let_def)

lemma span_exit_None: "span_exit clk None w = (None, w)"
  by (simp add: span_exit_def)

lemma wf_top:
  "wf_tracer t \<Longrightarrow> active_spans t \<noteq> [] \<Longrightarrow> last (active_spans t) < length (heap t)"
  by (simp add: wf_tracer_iff)

lemma wf_spans:
  assumes "wf_tracer t"
  shows "\<forall>a\<in>set (spans t). a < length (heap t)"
    and "\<forall>a\<in>set (active_spans t). a < length (heap t)"
    and "sorted_wrt (<) (spans t)"
  using assms unfolding wf_tracer_iff by blast+

lemma wf_children:
  assumes "wf_tracer t" "a < length (heap t)"
  shows "\<forall>c\<in>set (children (heap t ! a)). a < c \<and> c < length (heap t)"
    and "sorted_wrt (<) (children (heap t ! a))"
  using assms unfolding wf_tracer_iff by blast+

lemma span_enter_heap:
  assumes en: "enabled (tracer w)" and wf: "wf_tracer (tracer w)"
  shows "length (heap (tracer (snd (span_enter clk n md w)))) = Suc (length (heap (tracer w)))"
    and "heap (tracer (snd (span_enter clk n md w))) ! length (heap (tracer w)) = new_span clk n md w"
    and "b < length (heap (tracer w)) \<Longrightarrow>
         heap (tracer (snd (span_enter clk n md w))) ! b =
           (if active_spans (tracer w) \<noteq> [] \<and> b = last (active_spans (tracer w))
            then (heap (tracer w) ! b)\<lparr>children := children (heap (tracer w) ! b)
                                                     @ [length (heap (tracer w))]\<rparr>
            else heap (tracer w) ! b)"
proof -
  let ?h = "heap (tracer w)" and ?act = "active_spans (tracer w)"
  have top: "last ?act < length ?h" if "?act \<noteq> []"
    using wf that by (rule wf_top)
  show "length (heap (tracer (snd (span_enter clk n md w)))) = Suc (length ?h)"
    by (simp add: span_enter_fields(9) [OF en] Let_def)
  show "heap (tracer (snd (span_enter clk n md w))) ! length ?h = new_span clk n md w"
    using top by (auto simp: span_enter_fields(9) [OF en] Let_def nth_list_update nth_append)
  show "heap (tracer (snd (span_enter clk n md w))) ! b =
           (if ?act \<noteq> [] \<and> b = last ?act
            then (?h ! b)\<lparr>children := children (?h ! b) @ [length ?h]\<rparr>
            else ?h ! b)" if "b < length ?h"
    using top that by (auto simp: span_enter_fields(9) [OF en] Let_def nth_list_update nth_append)
qed

lemma span_enter_same:
  assumes en: "enabled (tracer w)" and wf: "wf_tracer (tracer w)" and b: "b < length (heap (tracer w))"
  shows "same_span (heap (tracer w) ! b) (heap (tracer (snd (span_enter clk n md w))) ! b)"
  unfolding span_enter_heap(3) [OF en wf b] by (simp add: same_span_def)

lemma span_enter_wf:
  assumes en: "enabled (tracer w)" and wf: "wf_tracer (tracer w)"
  shows "wf_tracer (tracer (snd (span_enter clk n md w)))"
proof -
  let ?w1 = "snd (span_enter clk n md w)"
  let ?h = "heap (tracer w)" and ?act = "active_spans (tracer w)"
  let ?h1 = "heap (tracer ?w1)"
  note f = span_enter_fields [OF en, where clk = clk and n = n and md = md]
  note h = span_enter_heap [OF en wf, where clk = clk and n = n and md = md]
  have top: "last ?act < length ?h" if "?act \<noteq> []"
    using wf that by (rule wf_top)
  have ch: "set (children (?h1 ! b)) \<subseteq> {c. b < c \<and> c < Suc (length ?h)}
            \<and> sorted_wrt (<) (children (?h1 ! b))" if b: "b < Suc (length ?h)" for b
  proof (cases "b < length ?h")
    case True
    have old: "\<forall>c\<in>set (children (?h ! b)). b < c \<and> c < length ?h"
      and srt: "sorted_wrt (<) (children (?h ! b))"
      using wf_children [OF wf True] by blast+
    show ?thesis
    proof (cases "?act \<noteq> [] \<and> b = last ?act")
      case top: True
      then have "children (?h1 ! b) = children (?h ! b) @ [length ?h]"
        using h(3) [OF True] by simp
      then show ?thesis using old srt True by (auto simp: sorted_wrt_append)
    next
      case False
      then have "children (?h1 ! b) = children (?h ! b)"
        using h(3) [OF True] by auto
      then show ?thesis using old srt by auto
    qed
  next
    case False
    with b have "b = length ?h" by simp
    then show ?thesis by (simp add: h(2) new_span_def)
  qed
  have sp: "\<forall>a\<in>set (spans (tracer ?w1)). a < length ?h1" "sorted_wrt (<) (spans (tracer ?w1))"
    using wf_spans(1,3) [OF wf] unfolding f(8) h(1) by (auto simp: sorted_wrt_append)
  have ac: "\<forall>a\<in>set (active_spans (tracer ?w1)). a < length ?h1"
    using wf_spans(2) [OF wf] unfolding f(7) h(1) by auto
  show ?thesis
    unfolding wf_tracer_iff [of "tracer ?w1"] h(1) using sp ac ch unfolding h(1) by blast
qed

lemma scopedD:
  assumes "scoped clk f" "wf_tracer (tracer w)"
  shows "wf_tracer (tracer (snd (f w)))" and "extends clk w (snd (f w))"
  using assms unfolding scoped_def by blast+

lemma wf_tracer_same_shape:
  assumes wf: "wf_tracer t"
      and len: "length (heap t') = length (heap t)"
      and ch: "\<forall>b<length (heap t). children (heap t' ! b) = children (heap t ! b)"
      and sp: "spans t' = spans t"
      and ac: "set (active_spans t') \<subseteq> set (active_spans t)"
  shows "wf_tracer t'"
proof -
  have 1: "\<forall>a\<in>set (spans t'). a < length (heap t')"
    and 4: "sorted_wrt (<) (spans t')"
    using wf_spans(1,3) [OF wf] sp len by simp_all
  have 2: "\<forall>a\<in>set (active_spans t'). a < length (heap t')"
    using wf_spans(2) [OF wf] ac len by auto
  have 3: "\<forall>c\<in>set (children (heap t' ! a)). a < c \<and> c < length (heap t')"
    and 5: "sorted_wrt (<) (children (heap t' ! a))" if "a < length (heap t')" for a
    using wf_children [OF wf, of a] that ch len by simp_all
  show ?thesis unfolding wf_tracer_iff using 1 2 3 4 5 by blast
qed

lemma span_exit_wf:
  assumes wf: "wf_tracer (tracer w)" and ne: "active_spans (tracer w) \<noteq> []"
  shows "wf_tracer (tracer (snd (span_exit clk (Some a) w)))"
proof (rule wf_tracer_same_shape [OF wf])
  note f = span_exit_fields [OF ne, where clk = clk and a = a]
  show "length (heap (tracer (snd (span_exit clk (Some a) w)))) = length (heap (tracer w))"
    by (simp add: f(9))
  show "\<forall>b<length (heap (tracer w)).
          children (heap (tracer (snd (span_exit clk (Some a) w))) ! b) =
          children (heap (tracer w) ! b)"
    by (cases "a < length (heap (tracer w))") (auto simp: f(9) nth_list_update)
  show "spans (tracer (snd (span_exit clk (Some a) w))) = spans (tracer w)"
    by (simp add: f(8))
  show "set (active_spans (tracer (snd (span_exit clk (Some a) w)))) \<subseteq> set (active_spans (tracer w))"
    unfolding f(7) by (auto dest: in_set_butlastD)
qed

lemma with_span_disabled:
  "\<not> enabled (tracer w) \<Longrightarrow> with_span clk n md body w = body w"
  by (simp add: with_span_def span_enter_disabled span_exit_None case_prod_beta)

lemma with_span_enabled:
  assumes en: "enabled (tracer w)" and wf: "wf_tracer (tracer w)" and sc: "scoped clk body"
  shows "fst (with_span clk n md body w) = fst (body (snd (span_enter clk n md w)))"
    and "snd (with_span clk n md body w) =
         snd (span_exit clk (Some (length (heap (tracer w))))
                (snd (body (snd (span_enter clk n md w)))))"
    and "active_spans (tracer (snd (body (snd (span_enter clk n md w))))) \<noteq> []"
proof -
  let ?w1 = "snd (span_enter clk n md w)"
  let ?w2 = "snd (body ?w1)"
  let ?a = "length (heap (tracer w))"
  note f = span_enter_fields [OF en, where clk = clk and n = n and md = md]
  have wf1: "wf_tracer (tracer ?w1)" using en wf by (rule span_enter_wf)
  have "extends clk ?w1 ?w2" using sc wf1 by (rule scopedD)
  then have "active_spans (tracer ?w2) = active_spans (tracer w) @ [?a]"
    by (simp add: extends_iff f(7))
  then show ne: "active_spans (tracer ?w2) \<noteq> []" by simp
  have ex: "fst (span_exit clk (Some ?a) ?w2) = None"
    using ne by (rule span_exit_fields(1))
  show "fst (with_span clk n md body w) = fst (body ?w1)"
    using ex by (simp add: with_span_def case_prod_beta f(1))
  show "snd (with_span clk n md body w) = snd (span_exit clk (Some ?a) ?w2)"
    using ex by (simp add: with_span_def case_prod_beta f(1))
qed

lemma with_span_scoped:
  assumes sc: "scoped clk body"
  shows "scoped clk (with_span clk n md body)"
  unfolding scoped_def
proof (intro allI impI)
  fix w :: world
  assume wf: "wf_tracer (tracer w)"
  show "wf_tracer (tracer (snd (with_span clk n md body w)))
        \<and> extends clk w (snd (with_span clk n md body w))"
  proof (cases "enabled (tracer w)")
    case False
    then show ?thesis using scopedD [OF sc wf] by (simp add: with_span_disabled)
  next
    case en: True
    let ?w1 = "snd (span_enter clk n md w)"
    let ?w2 = "snd (body ?w1)"
    let ?a = "length (heap (tracer w))"
    let ?w3 = "snd (span_exit clk (Some ?a) ?w2)"
    let ?h = "heap (tracer w)" and ?h1 = "heap (tracer ?w1)" and ?h2 = "heap (tracer ?w2)"
    let ?h3 = "heap (tracer ?w3)"
    note f = span_enter_fields [OF en, where clk = clk and n = n and md = md]
    note h = span_enter_heap [OF en wf, where clk = clk and n = n and md = md]
    note ws = with_span_enabled [OF en wf sc, where n = n and md = md]
    note x = span_exit_fields [OF ws(3), where clk = clk and a = ?a]
    have wf1: "wf_tracer (tracer ?w1)" using en wf by (rule span_enter_wf)
    have wf2: "wf_tracer (tracer ?w2)" and e12: "extends clk ?w1 ?w2"
      using scopedD [OF sc wf1] by simp_all
    have wf3: "wf_tracer (tracer ?w3)" using wf2 ws(3) by (rule span_exit_wf)
    have len12: "length ?h1 \<le> length ?h2" using e12 by (simp add: extends_iff)
    have a2: "?a < length ?h2" using len12 by (simp add: h(1))
    have len3: "length ?h3 = length ?h2" by (simp add: x(9))
    have nth3: "?h3 ! b = (if b = ?a then (?h2 ! ?a)\<lparr>end_time := Some (clk (ticks ?w2))\<rparr>
                           else ?h2 ! b)" if "b < length ?h2" for b
      using that a2 by (simp add: x(9) nth_list_update)
    have same12: "same_span (?h1 ! b) (?h2 ! b)" if "b < length ?h1" for b
      using e12 that by (simp add: extends_iff)
    have act: "active_spans (tracer ?w3) = active_spans (tracer w)"
    proof -
      have "active_spans (tracer ?w2) = active_spans (tracer w) @ [?a]"
        using e12 by (simp add: extends_iff f(7))
      then show ?thesis by (simp add: x(7))
    qed
    have en3: "enabled (tracer ?w3) = enabled (tracer w)"
      using e12 en by (simp add: extends_iff x(6) f(6))
    have sp: "prefix (spans (tracer w)) (spans (tracer ?w3))"
    proof -
      have "prefix (spans (tracer w)) (spans (tracer ?w1))" by (simp add: f(8))
      moreover have "prefix (spans (tracer ?w1)) (spans (tracer ?w2))"
        using e12 by (simp add: extends_iff)
      ultimately show ?thesis unfolding x(8) by (rule prefix_order.order_trans)
    qed
    have tk12: "ticks ?w1 \<le> ticks ?w2" using e12 by (simp add: extends_iff)
    then have tk: "ticks w \<le> ticks ?w3" by (simp add: x(2) f(2))
    have len: "length ?h \<le> length ?h3" using len12 by (simp add: len3 h(1))
    have old: "same_span (?h ! b) (?h3 ! b)" if b: "b < length ?h" for b
    proof -
      have b1: "b < length ?h1" and b2: "b < length ?h2" and ne: "b \<noteq> ?a"
        using b len12 by (simp_all add: h(1))
      have "same_span (?h ! b) (?h1 ! b)" using en wf b by (rule span_enter_same)
      moreover have "same_span (?h1 ! b) (?h2 ! b)" using b1 by (rule same12)
      ultimately have "same_span (?h ! b) (?h2 ! b)" by (rule same_span_trans)
      then show ?thesis using ne by (simp add: nth3 [OF b2])
    qed
    have new: "closed_ok (?h3 ! b)"
      if mono: "mono clk" and lo: "length ?h \<le> b" and hi: "b < length ?h3" for b
    proof (cases "b = ?a")
      case True
      have "same_span (?h1 ! ?a) (?h2 ! ?a)" by (rule same12) (simp add: h(1))
      then have st: "start_time (?h2 ! ?a) = clk (ticks w)"
        by (simp add: same_span_def h(2) new_span_def)
      have "ticks w \<le> ticks ?w2" using tk12 by (simp add: f(2))
      then have "clk (ticks w) \<le> clk (ticks ?w2)" using mono by (simp add: monoD)
      then show ?thesis using True st a2 by (simp add: closed_ok_def nth3)
    next
      case False
      then have b1: "length ?h1 \<le> b" and b2: "b < length ?h2"
        using lo hi by (simp_all add: h(1) len3)
      then have "closed_ok (?h2 ! b)" using e12 mono by (simp add: extends_iff)
      then show ?thesis using False b2 by (simp add: nth3)
    qed
    have "extends clk w ?w3"
      unfolding extends_iff using en3 act sp tk len old new by blast
    then show ?thesis using wf3 by (simp add: ws(2))
  qed
qed

lemma those_None_iff: "those xs = None \<longleftrightarrow> None \<in> set xs"
  by (induction xs) (auto split: option.splits)

lemma summarize_span_enough:
  assumes ch: "\<forall>a<length h. \<forall>c\<in>set (children (h ! a)). a < c \<and> c < length h"
  shows "a < length h \<Longrightarrow> length h - a \<le> n \<Longrightarrow> summarize_span n h a \<noteq> None"
proof (induction n arbitrary: a)
  case 0
  then show ?case by simp
next
  case (Suc n)
  have "summarize_span n h c \<noteq> None" if c: "c \<in> set (children (h ! a))" for c
  proof -
    have "a < c" "c < length h" using ch Suc.prems(1) c by blast+
    then show ?thesis using Suc.prems(2) by (intro Suc.IH) simp_all
  qed
  then have "None \<notin> set (map (\<lambda>c. summarize_span n h c) (children (h ! a)))"
    by force
  then have "those (map (\<lambda>c. summarize_span n h c) (children (h ! a))) \<noteq> None"
    by (simp add: those_None_iff)
  then show ?case using Suc.prems(1) by auto
qed

lemma summaries_enough:
  assumes wf: "wf_tracer t"
  shows "those (map (\<lambda>a. summarize_span (length (heap t)) (heap t) a) (spans t)) \<noteq> None"
proof -
  have ch: "\<forall>a<length (heap t). \<forall>c\<in>set (children (heap t ! a)). a < c \<and> c < length (heap t)"
    using wf_children(1) [OF wf] by blast
  have "summarize_span (length (heap t)) (heap t) a \<noteq> None" if "a \<in> set (spans t)" for a
    using wf_spans(1) [OF wf] that by (intro summarize_span_enough [OF ch]) simp_all
  then have "None \<notin> set (map (\<lambda>a. summarize_span (length (heap t)) (heap t) a) (spans t))"
    by force
  then show ?thesis by (simp add: those_None_iff)
qed

lemma get_trace_summary_fields:
  "tracer (snd (get_trace_summary clk w)) = tracer w"
  "collector (snd (get_trace_summary clk w)) = collector w"
  "session_manager (snd (get_trace_summary clk w)) = session_manager w"
  "memory_bank (snd (get_trace_summary clk w)) = memory_bank w"
  "ticks w \<le> ticks (snd (get_trace_summary clk w))"
  by (simp_all add: get_trace_summary_def Let_def read_clock_def split: option.splits)

lemma get_trace_summary_ok:
  assumes "wf_tracer (tracer w)"
  shows "\<exists>s. fst (get_trace_summary clk w) = Inr s"
  using summaries_enough [OF assms]
  by (auto simp: get_trace_summary_def Let_def read_clock_def split: option.splits)

lemma unchanged_tracer_scoped:
  assumes "\<And>w. tracer (snd (f w)) = tracer w" "\<And>w. ticks w \<le> ticks (snd (f w))"
  shows "scoped clk f"
  unfolding scoped_def extends_iff using assms by (auto simp: same_span_refl)

lemma get_trace_summary_scoped: "scoped clk (get_trace_summary clk)"
  by (rule unchanged_tracer_scoped) (simp_all add: get_trace_summary_fields)

lemma with_span_result:
  assumes wf: "wf_tracer (tracer w)" and sc: "scoped clk body"
  shows "\<exists>w1. wf_tracer (tracer w1) \<and> fst (with_span clk n md body w) = fst (body w1)"
proof (cases "enabled (tracer w)")
  case True
  then show ?thesis
    using with_span_enabled(1) [OF True wf sc] span_enter_wf [OF True wf] by blast
next
  case False
  then show ?thesis using wf by (auto simp: with_span_disabled)
qed






lemma world0_wf: "wf_tracer (tracer world0)"
  by (simp add: world0_def wf_tracer_def)




section \<open>The request lifecycle\<close>

subsection \<open>What the operations leave alone\<close>

lemma read_clock_fields:
  "fst (read_clock clk w) = clk (ticks w)"
  "tracer (snd (read_clock clk w)) = tracer w"
  "collector (snd (read_clock clk w)) = collector w"
  "session_manager (snd (read_clock clk w)) = session_manager w"
  "memory_bank (snd (read_clock clk w)) = memory_bank w"
  "ticks (snd (read_clock clk w)) = Suc (ticks w)"
  by (simp_all add: read_clock_def)

lemma increment_w_fields:
  "tracer (increment_w clk n w) = tracer w"
  "session_manager (increment_w clk n w) = session_manager w"
  "memory_bank (increment_w clk n w) = memory_bank w"
  "ticks w \<le> ticks (increment_w clk n w)"
  "enabled_m (collector (increment_w clk n w)) = enabled_m (collector w)"
  "timers (collector (increment_w clk n w)) = timers (collector w)"
  "counter (collector (increment_w clk n w)) m =
     (if enabled_m (collector w) \<and> m = n then counter (collector w) m + 1
      else counter (collector w) m)"
  by (simp_all add: increment_w_def increment_def read_clock_def Let_def counter_def
      AList.update_conv')

lemma record_timing_w_fields:
  "tracer (record_timing_w clk n d w) = tracer w"
  "session_manager (record_timing_w clk n d w) = session_manager w"
  "memory_bank (record_timing_w clk n d w) = memory_bank w"
  "ticks w \<le> ticks (record_timing_w clk n d w)"
  "enabled_m (collector (record_timing_w clk n d w)) = enabled_m (collector w)"
  "counters (collector (record_timing_w clk n d w)) = counters (collector w)"
  "timer (collector (record_timing_w clk n d w)) m =
     (if enabled_m (collector w) \<and> m = n then timer (collector w) m @ [d]
      else timer (collector w) m)"
  by (simp_all add: record_timing_w_def record_timing_def read_clock_def Let_def timer_def
      AList.update_conv')

lemma update_session_w_fields:
  "tracer (update_session_w clk sid r c w) = tracer w"
  "collector (update_session_w clk sid r c w) = collector w"
  "memory_bank (update_session_w clk sid r c w) = memory_bank w"
  "ticks w \<le> ticks (update_session_w clk sid r c w)"
  by (simp_all add: update_session_w_def read_clock_def Let_def split: option.splits)

lemma get_summary_w_fields:
  "tracer (snd (get_summary_w clk w)) = tracer w"
  "collector (snd (get_summary_w clk w)) = collector w"
  "session_manager (snd (get_summary_w clk w)) = session_manager w"
  "memory_bank (snd (get_summary_w clk w)) = memory_bank w"
  "ticks w \<le> ticks (snd (get_summary_w clk w))"
  by (simp_all add: get_summary_w_def read_clock_def Let_def)

lemma store_insight_w_fields:
  "tracer (snd (store_insight_w clk io st i md w)) = tracer w"
  "collector (snd (store_insight_w clk io st i md w)) = collector w"
  "session_manager (snd (store_insight_w clk io st i md w)) = session_manager w"
  "ticks w \<le> ticks (snd (store_insight_w clk io st i md w))"
  by (simp_all add: store_insight_w_def read_clock_def Let_def case_prod_beta)

lemma span_enter_frame:
  "collector (snd (span_enter clk n md w)) = collector w"
  "session_manager (snd (span_enter clk n md w)) = session_manager w"
  "memory_bank (snd (span_enter clk n md w)) = memory_bank w"
  "ticks w \<le> ticks (snd (span_enter clk n md w))"
  "enabled (tracer (snd (span_enter clk n md w))) = enabled (tracer w)"
  by (simp_all add: span_enter_def read_clock_def Let_def)

lemma span_exit_frame:
  "collector (snd (span_exit clk sp w)) = collector w"
  "session_manager (snd (span_exit clk sp w)) = session_manager w"
  "memory_bank (snd (span_exit clk sp w)) = memory_bank w"
  "ticks w \<le> ticks (snd (span_exit clk sp w))"
  "enabled (tracer (snd (span_exit clk sp w))) = enabled (tracer w)"
  by (simp_all add: span_exit_def read_clock_def Let_def split: option.splits)

lemma with_span_snd:
  "snd (with_span clk n md body w) =
     snd (span_exit clk (fst (span_enter clk n md w)) (snd (body (snd (span_enter clk n md w)))))"
  by (simp add: with_span_def case_prod_beta split: option.splits)

lemma with_span_frame:
  "collector (snd (with_span clk n md body w)) = collector (snd (body (snd (span_enter clk n md w))))"
  "session_manager (snd (with_span clk n md body w)) =
     session_manager (snd (body (snd (span_enter clk n md w))))"
  "memory_bank (snd (with_span clk n md body w)) =
     memory_bank (snd (body (snd (span_enter clk n md w))))"
  by (simp_all add: with_span_snd span_exit_frame)

text \<open>A block whose body leaves the stack of open spans alone does not fail at its exit.\<close>

lemma with_span_fst:
  assumes "active_spans (tracer (snd (body (snd (span_enter clk n md w))))) =
           active_spans (tracer (snd (span_enter clk n md w)))"
  shows "fst (with_span clk n md body w) = fst (body (snd (span_enter clk n md w)))"
    and "active_spans (tracer (snd (with_span clk n md body w))) = active_spans (tracer w)"
proof -
  let ?w1 = "snd (span_enter clk n md w)"
  let ?w2 = "snd (body ?w1)"
  show "fst (with_span clk n md body w) = fst (body ?w1)"
  proof (cases "enabled (tracer w)")
    case True
    note f = span_enter_fields [OF True, where clk = clk and n = n and md = md]
    have ne: "active_spans (tracer ?w2) \<noteq> []" using assms by (simp add: f(7))
    then have "fst (span_exit clk (Some (length (heap (tracer w)))) ?w2) = None"
      by (rule span_exit_fields(1))
    then show ?thesis by (simp add: with_span_def case_prod_beta f(1))
  next
    case False
    then show ?thesis by (simp add: with_span_disabled span_enter_disabled)
  qed
  show "active_spans (tracer (snd (with_span clk n md body w))) = active_spans (tracer w)"
  proof (cases "enabled (tracer w)")
    case True
    note f = span_enter_fields [OF True, where clk = clk and n = n and md = md]
    have ne: "active_spans (tracer ?w2) \<noteq> []" using assms by (simp add: f(7))
    show ?thesis
      using assms by (simp add: with_span_snd f(1) f(7) span_exit_fields(7) [OF ne])
  next
    case False
    then show ?thesis using assms by (simp add: with_span_disabled span_enter_disabled)
  qed
qed

lemma then_do_Inr: "f w = (Inr x, w') \<Longrightarrow> then_do f g w = g x w'"
  by (simp add: then_do_def)

lemma then_do_Inl: "f w = (Inl e, w') \<Longrightarrow> then_do f g w = (Inl e, w')"
  by (simp add: then_do_def)

lemma ret_fields: "fst (ret x w) = Inr x" "snd (ret x w) = w"
  by (simp_all add: ret_def)

lemma load_data_fields:
  "fst (load_data env p w) = Inr (load_data_try env p)"
  "active_spans (tracer (snd (load_data env p w))) = active_spans (tracer w)"
  "collector (snd (load_data env p w)) = collector w"
  "session_manager (snd (load_data env p w)) = session_manager w"
  "memory_bank (snd (load_data env p w)) = memory_bank w"
  unfolding load_data_def
  by (simp_all add: with_span_fst with_span_frame ret_fields span_enter_frame)

lemma suffix_txt: "\<not> suffix ''.csv'' ''sales.txt''" "\<not> suffix ''.json'' ''sales.txt''"
  by (simp_all add: suffix_to_prefix)

lemma load_txt: "load_data_try env (Some ''sales.txt'') = None"
  by (simp add: load_data_try_def suffix_txt)

lemma analyze_try_load_failure:
  assumes "p \<noteq> []" "load_data_try env (Some p) = None"
  shows "fst (analyze_try env query (Some p) started w) = Inr (Failed ''Failed to load data'')"
    and "collector (snd (analyze_try env query (Some p) started w)) = collector w"
    and "active_spans (tracer (snd (analyze_try env query (Some p) started w))) =
         active_spans (tracer w)"
proof -
  let ?w1 = "update_session_w (clock env) (session_id env) ''user'' query w"
  obtain w2 where ld: "load_data env (Some p) ?w1 = (Inr None, w2)"
    using load_data_fields(1) [of env "Some p" ?w1] assms(2)
    by (cases "load_data env (Some p) ?w1") simp
  have w2: "w2 = snd (load_data env (Some p) ?w1)" using ld by simp
  have at: "analyze_try env query (Some p) started w = (Inr (Failed ''Failed to load data''), w2)"
    using assms(1) by (simp add: analyze_try_def Let_def then_do_def ld ret_def truthy_str_def)
  show "fst (analyze_try env query (Some p) started w) = Inr (Failed ''Failed to load data'')"
    by (simp add: at)
  show "collector (snd (analyze_try env query (Some p) started w)) = collector w"
    by (simp add: at w2 load_data_fields update_session_w_fields)
  show "active_spans (tracer (snd (analyze_try env query (Some p) started w))) =
         active_spans (tracer w)"
    by (simp add: at w2 load_data_fields update_session_w_fields)
qed

lemma analyze_load_failure:
  assumes "p \<noteq> []" "load_data_try env (Some p) = None"
  shows "fst (analyze env query (Some p) w) = Inr (Failed ''Failed to load data'')"
    and "counter (collector (snd (analyze env query (Some p) w))) m =
           (if enabled_m (collector w) \<and> m = ''coordinator.analysis_requests''
            then counter (collector w) m + 1 else counter (collector w) m)"
    and "timers (collector (snd (analyze env query (Some p) w))) = timers (collector w)"
proof -
  let ?clk = "clock env"
  let ?md = "Some [(''query'', PStr query)]"
  let ?w0 = "snd (span_enter ?clk ''coordinator.analyze'' ?md w)"
  let ?w1 = "increment_w ?clk ''coordinator.analysis_requests'' ?w0"
  let ?w2 = "snd (read_clock ?clk ?w1)"
  let ?st = "fst (read_clock ?clk ?w1)"
  let ?body = "analyze_body env query (Some p)"
  note t = analyze_try_load_failure [OF assms, of query ?st ?w2]
  obtain w3 where at: "analyze_try env query (Some p) ?st ?w2 = (Inr (Failed ''Failed to load data''), w3)"
    using t(1) by (cases "analyze_try env query (Some p) ?st ?w2") simp
  have w3: "w3 = snd (analyze_try env query (Some p) ?st ?w2)" using at by simp
  have body: "?body ?w0 = (Inr (Failed ''Failed to load data''), w3)"
    by (simp add: analyze_body_def Let_def case_prod_beta at)
  have act: "active_spans (tracer (snd (?body ?w0))) = active_spans (tracer ?w0)"
    by (simp add: body w3 t(3) read_clock_fields(2-6) increment_w_fields)
  have an: "analyze env query (Some p) w = with_span ?clk ''coordinator.analyze'' ?md ?body w"
    by (simp add: analyze_def)
  show "fst (analyze env query (Some p) w) = Inr (Failed ''Failed to load data'')"
    unfolding an
    using with_span_fst(1) [where body = ?body and clk = ?clk and n = "''coordinator.analyze''"
        and md = ?md and w = w, OF act]
    by (simp add: body)
  have col: "collector (snd (analyze env query (Some p) w)) = collector ?w1"
    unfolding an with_span_frame by (simp add: body w3 t(2) read_clock_fields(2-6))
  show "counter (collector (snd (analyze env query (Some p) w))) m =
           (if enabled_m (collector w) \<and> m = ''coordinator.analysis_requests''
            then counter (collector w) m + 1 else counter (collector w) m)"
    unfolding col by (simp add: increment_w_fields span_enter_frame)
  show "timers (collector (snd (analyze env query (Some p) w))) = timers (collector w)"
    unfolding col by (simp add: increment_w_fields span_enter_frame)
qed

text \<open>
  C2 on the data-load failure path. For a data file with an unsupported extension
  \<open>_load_data\<close> returns \<open>None\<close> and \<open>analyze\<close> returns from inside the
  \<open>try\<close> block: the request counter was incremented, but neither the success
  counter nor the error counter is, and no duration is recorded.
\<close>

theorem analyze_load_failure_skips_metrics:
  "fst (analyze env query (Some ''sales.txt'') world0) = Inr (Failed ''Failed to load data'')
   \<and> counter (collector (snd (analyze env query (Some ''sales.txt'') world0)))
         ''coordinator.analysis_requests'' = 1
   \<and> counter (collector (snd (analyze env query (Some ''sales.txt'') world0)))
         ''coordinator.analysis_success'' = 0
   \<and> counter (collector (snd (analyze env query (Some ''sales.txt'') world0)))
         ''coordinator.analysis_errors'' = 0
   \<and> timers (collector (snd (analyze env query (Some ''sales.txt'') world0))) = []"
proof -
  have p: "''sales.txt'' \<noteq> []" by simp
  have c: "enabled_m (collector world0)" "counter (collector world0) m = 0"
    "timers (collector world0) = []" for m
    by (simp_all add: world0_def counter_def)
  show ?thesis
    using analyze_load_failure [OF p load_txt, of env query world0] by (simp add: c)
qed


section \<open>Scoping of the request\<close>

lemma extends_pure:
  "tracer w' = tracer w \<Longrightarrow> ticks w \<le> ticks w' \<Longrightarrow> extends clk w w'"
  unfolding extends_iff by (auto simp: same_span_refl)

lemma scoped_ret: "scoped clk (ret x)"
  by (rule unchanged_tracer_scoped) (simp_all add: ret_def)

lemma scoped_then_do:
  assumes f: "scoped clk f" and g: "\<And>x. scoped clk (g x)"
  shows "scoped clk (then_do f g)"
  unfolding scoped_def
proof (intro allI impI)
  fix w :: world
  assume wf: "wf_tracer (tracer w)"
  obtain r w' where fw: "f w = (r, w')" by (cases "f w")
  have wf': "wf_tracer (tracer w')" and e: "extends clk w w'"
    using scopedD [OF f wf] fw by simp_all
  show "wf_tracer (tracer (snd (then_do f g w))) \<and> extends clk w (snd (then_do f g w))"
  proof (cases r)
    case (Inl x)
    then show ?thesis using wf' e fw by (simp add: then_do_def)
  next
    case (Inr x)
    then have "then_do f g w = g x w'" using fw by (simp add: then_do_def)
    then show ?thesis
      using scopedD [OF g wf'] e by (auto intro: extends_trans)
  qed
qed

text \<open>A step that leaves the tracer alone, before a scoped one.\<close>

lemma scoped_after:
  assumes f: "\<And>w. tracer (f w) = tracer w" "\<And>w. ticks w \<le> ticks (f w)"
      and g: "scoped clk g"
  shows "scoped clk (\<lambda>w. g (f w))"
  unfolding scoped_def
proof (intro allI impI)
  fix w :: world
  assume wf: "wf_tracer (tracer w)"
  then have wf': "wf_tracer (tracer (f w))" by (simp add: f(1))
  have "extends clk w (f w)" by (rule extends_pure) (simp_all add: f)
  then show "wf_tracer (tracer (snd (g (f w)))) \<and> extends clk w (snd (g (f w)))"
    using scopedD [OF g wf'] by (auto intro: extends_trans)
qed

lemma scoped_load_data: "scoped (clock env) (load_data env p)"
  unfolding load_data_def by (rule with_span_scoped) (rule scoped_ret)

lemma scoped_store_insight_w: "scoped clk (store_insight_w clk io st i md)"
  by (rule unchanged_tracer_scoped) (simp_all add: store_insight_w_fields)

lemma scoped_analysis_step:
  assumes "scoped_agents env"
  shows "scoped (clock env) (analysis_step env workflow data query)"
  unfolding analysis_step_def using assms
  by (auto simp: scoped_agents_def intro!: scoped_then_do scoped_ret scoped_store_insight_w)

lemma scoped_report_step:
  assumes "scoped_agents env"
  shows "scoped (clock env) (report_step env workflow analysis_results)"
  unfolding report_step_def using assms
  by (auto simp: scoped_agents_def intro!: scoped_ret)

lemma compile_response_frame:
  "tracer (snd (compile_response env q a r wfl w)) = tracer w"
  "ticks w \<le> ticks (snd (compile_response env q a r wfl w))"
proof -
  have t: "tracer (snd (get_summary_w clk (snd (get_trace_summary clk w)))) = tracer w" for clk
    by (simp add: get_summary_w_fields get_trace_summary_fields)
  have k: "ticks w \<le> ticks (snd (get_summary_w clk (snd (get_trace_summary clk w))))" for clk
    using get_summary_w_fields(5) [where w = "snd (get_trace_summary clk w)" and clk = clk]
      get_trace_summary_fields(5) [where w = w and clk = clk] by simp
  show "tracer (snd (compile_response env q a r wfl w)) = tracer w"
    using t [of "clock env"] get_trace_summary_fields(1) [where clk = "clock env" and w = w]
    by (auto simp: compile_response_def Let_def case_prod_beta split: sum.splits prod.splits)
  show "ticks w \<le> ticks (snd (compile_response env q a r wfl w))"
    using k [of "clock env"] get_trace_summary_fields(5) [where clk = "clock env" and w = w]
    by (auto simp: compile_response_def Let_def case_prod_beta split: sum.splits prod.splits)
qed

lemma scoped_compile_response: "scoped clk (compile_response env q a r wfl)"
  by (rule unchanged_tracer_scoped) (simp_all add: compile_response_frame)

lemma finish_frame:
  "tracer (snd (finish env started resp w)) = tracer w"
  "ticks w \<le> ticks (snd (finish env started resp w))"
  "fst (finish env started resp w) = Inr (Compiled resp)"
proof -
  let ?w1 = "update_session_w (clock env) (session_id env) ''assistant'' (str_of env resp) w"
  let ?w2 = "snd (read_clock (clock env) ?w1)"
  let ?w3 = "record_timing_w (clock env) ''coordinator.analysis_duration''
               (fst (read_clock (clock env) ?w1) - started) ?w2"
  let ?w4 = "increment_w (clock env) ''coordinator.analysis_success'' ?w3"
  have s: "snd (finish env started resp w) = ?w4"
    by (simp add: finish_def Let_def case_prod_beta)
  show "tracer (snd (finish env started resp w)) = tracer w"
    unfolding s
    by (simp add: increment_w_fields record_timing_w_fields read_clock_fields(2-6)
        update_session_w_fields)
  have "ticks w \<le> ticks ?w1" by (rule update_session_w_fields)
  also have "\<dots> \<le> ticks ?w2" by (simp add: read_clock_fields(6))
  also have "\<dots> \<le> ticks ?w3" by (rule record_timing_w_fields)
  also have "\<dots> \<le> ticks ?w4" by (rule increment_w_fields)
  finally show "ticks w \<le> ticks (snd (finish env started resp w))" unfolding s .
  show "fst (finish env started resp w) = Inr (Compiled resp)"
    by (simp add: finish_def Let_def case_prod_beta)
qed

lemma scoped_finish: "scoped clk (finish env started resp)"
  by (rule unchanged_tracer_scoped) (simp_all add: finish_frame)

lemma scoped_analyze_rest:
  assumes "scoped_agents env"
  shows "scoped (clock env) (analyze_rest env query workflow started data)"
  unfolding analyze_rest_def
  by (intro scoped_then_do scoped_analysis_step scoped_report_step scoped_compile_response
      scoped_finish assms)

lemma scoped_analyze_try:
  assumes "scoped_agents env"
  shows "scoped (clock env) (analyze_try env query data_file started)"
proof -
  let ?wfl = "plan_workflow (plan_llm env) query data_file"
  let ?g = "if truthy_str data_file \<or> truthy (dict_get ?wfl ''needs_data'')
            then then_do (load_data env (if truthy_str data_file then data_file else None))
                   (\<lambda>data. case data of
                              None \<Rightarrow> ret (Failed ''Failed to load data'')
                            | Some f \<Rightarrow> analyze_rest env query ?wfl started (Some f))
            else analyze_rest env query ?wfl started None"
  have g: "scoped (clock env) ?g"
    by (auto intro!: scoped_then_do scoped_load_data scoped_ret scoped_analyze_rest assms
        split: option.splits)
  have "analyze_try env query data_file started =
        (\<lambda>w. ?g (update_session_w (clock env) (session_id env) ''user'' query w))"
    by (rule ext) (simp add: analyze_try_def Let_def)
  then show ?thesis
    using scoped_after [where f = "update_session_w (clock env) (session_id env) ''user'' query"
        and g = ?g, OF _ _ g]
    by (simp add: update_session_w_fields)
qed

lemma analyze_body_snd:
  "snd (analyze_body env query data_file w) =
     (let w1 = increment_w (clock env) ''coordinator.analysis_requests'' w;
          res = analyze_try env query data_file (fst (read_clock (clock env) w1))
                 (snd (read_clock (clock env) w1))
      in case fst res of
           Inr r \<Rightarrow> snd res
         | Inl e \<Rightarrow> increment_w (clock env) ''coordinator.analysis_errors'' (snd res))"
  by (simp add: analyze_body_def Let_def case_prod_beta split: sum.splits prod.splits)

lemma analyze_body_fst:
  "fst (analyze_body env query data_file w) =
     (let w1 = increment_w (clock env) ''coordinator.analysis_requests'' w;
          res = analyze_try env query data_file (fst (read_clock (clock env) w1))
                 (snd (read_clock (clock env) w1))
      in case fst res of
           Inr r \<Rightarrow> Inr r
         | Inl e \<Rightarrow> Inr (Failed (str_exn e)))"
  by (simp add: analyze_body_def Let_def case_prod_beta split: sum.splits prod.splits)

lemma scoped_analyze_body:
  assumes "scoped_agents env"
  shows "scoped (clock env) (analyze_body env query data_file)"
  unfolding scoped_def
proof (intro allI impI)
  fix w :: world
  assume wf: "wf_tracer (tracer w)"
  let ?clk = "clock env"
  let ?w1 = "increment_w ?clk ''coordinator.analysis_requests'' w"
  let ?w2 = "snd (read_clock ?clk ?w1)"
  let ?at = "analyze_try env query data_file (fst (read_clock ?clk ?w1)) ?w2"
  let ?w3 = "snd ?at"
  let ?w4 = "snd (analyze_body env query data_file w)"
  have t2: "tracer ?w2 = tracer w" by (simp add: read_clock_fields(2-6) increment_w_fields)
  have "ticks w \<le> ticks ?w1" by (rule increment_w_fields)
  then have k2: "ticks w \<le> ticks ?w2" by (simp add: read_clock_fields(6))
  have e02: "extends ?clk w ?w2" using t2 k2 by (rule extends_pure)
  have wf2: "wf_tracer (tracer ?w2)" using wf by (simp add: t2)
  have wf3: "wf_tracer (tracer ?w3)" and e23: "extends ?clk ?w2 ?w3"
    using scopedD [OF scoped_analyze_try [OF assms] wf2] by simp_all
  have t4: "tracer ?w4 = tracer ?w3"
    by (simp add: analyze_body_snd Let_def increment_w_fields split: sum.splits)
  have k4: "ticks ?w3 \<le> ticks ?w4"
    by (simp add: analyze_body_snd Let_def increment_w_fields split: sum.splits)
  have e34: "extends ?clk ?w3 ?w4" using t4 k4 by (rule extends_pure)
  have "extends ?clk w ?w4"
    using e02 e23 e34 by (blast intro: extends_trans)
  then show "wf_tracer (tracer ?w4) \<and> extends ?clk w ?w4"
    using wf3 by (simp add: t4)
qed


lemma data_analyst_body_frame:
  "tracer (snd (data_analyst_body clk work data query w)) = tracer w"
  "ticks w \<le> ticks (snd (data_analyst_body clk work data query w))"
proof -
  have k: "ticks w \<le> ticks (increment_w clk n' (increment_w clk n w))" for n n'
    using increment_w_fields(4) [of w clk n]
      increment_w_fields(4) [of "increment_w clk n w" clk n'] by simp
  show "tracer (snd (data_analyst_body clk work data query w)) = tracer w"
    by (simp add: data_analyst_body_def Let_def increment_w_fields
        split: sum.splits prod.splits option.splits)
  show "ticks w \<le> ticks (snd (data_analyst_body clk work data query w))"
    using k by (simp add: data_analyst_body_def Let_def split: sum.splits prod.splits option.splits)
qed

lemma report_generator_body_frame:
  "tracer (snd (report_generator_body clk work title a w)) = tracer w"
  "ticks w \<le> ticks (snd (report_generator_body clk work title a w))"
proof -
  have k: "ticks w \<le> ticks (increment_w clk n' (increment_w clk n w))" for n n'
    using increment_w_fields(4) [of w clk n]
      increment_w_fields(4) [of "increment_w clk n w" clk n'] by simp
  show "tracer (snd (report_generator_body clk work title a w)) = tracer w"
    by (simp add: report_generator_body_def Let_def increment_w_fields
        split: sum.splits prod.splits)
  show "ticks w \<le> ticks (snd (report_generator_body clk work title a w))"
    using k by (simp add: report_generator_body_def Let_def split: sum.splits prod.splits)
qed

lemma scoped_data_analyst: "scoped clk (data_analyst_analyze_data clk work data query)"
  unfolding data_analyst_analyze_data_def
  by (intro with_span_scoped unchanged_tracer_scoped) (simp_all add: data_analyst_body_frame)

lemma scoped_report_generator:
  "scoped clk (report_generator_generate_report clk work title a)"
  unfolding report_generator_generate_report_def
  by (intro with_span_scoped unchanged_tracer_scoped) (simp_all add: report_generator_body_frame)

text \<open>Without data the analysis agent answers with a failure, whatever the state.\<close>

lemma data_analyst_no_data:
  "fst (data_analyst_analyze_data clk work None query w) =
     Inr [(''success'', PBool False),
          (''error'', PStr ''NoneType object has no attribute shape'')]"
proof -
  have b: "fst (data_analyst_body clk work None query w') =
             Inr [(''success'', PBool False),
                  (''error'', PStr ''NoneType object has no attribute shape'')]" for w'
    by (simp add: data_analyst_body_def Let_def)
  show ?thesis
    unfolding data_analyst_analyze_data_def
    using with_span_fst(1) [where body = "data_analyst_body clk work None query" and clk = clk
        and n = "''data_analysis''" and md = "Some [(''query'', PStr query)]" and w = w]
    by (simp add: data_analyst_body_frame b)
qed

lemma report_generator_result:
  "fst (report_generator_generate_report clk work title a w) =
     (case work title a of
        Inr (report_result, sections) \<Rightarrow>
          Inr [(''success'', PBool True), (''report'', report_result),
               (''sections'', PInt sections)]
      | Inl e \<Rightarrow> Inr [(''success'', PBool False), (''error'', PStr (str_exn e))])"
proof -
  have b: "fst (report_generator_body clk work title a w') =
     (case work title a of
        Inr (report_result, sections) \<Rightarrow>
          Inr [(''success'', PBool True), (''report'', report_result),
               (''sections'', PInt sections)]
      | Inl e \<Rightarrow> Inr [(''success'', PBool False), (''error'', PStr (str_exn e))])" for w'
    by (simp add: report_generator_body_def Let_def split: sum.splits prod.splits)
  show ?thesis
    unfolding report_generator_generate_report_def
    using with_span_fst(1) [where body = "report_generator_body clk work title a" and clk = clk
        and n = "''report_generation''" and md = "Some [(''title'', title)]" and w = w]
    by (simp add: report_generator_body_frame b)
qed


section \<open>Partial failure\<close>

lemma plan_report_query:
  "plan_workflow None ''generate a report'' None =
     [(''needs_data'', PBool False), (''perform_analysis'', PBool True),
      (''generate_report'', PBool True), (''report_title'', PStr ''Business Analytics Report'')]"
proof -
  have "\<not> contains ''data'' (lower ''generate a report'')"
    and "contains ''report'' (lower ''generate a report'')"
    by code_simp+
  then show ?thesis by (simp add: plan_workflow_def)
qed

lemma plan_perform_analysis:
  "truthy (dict_get (plan_workflow llm query data_file) ''perform_analysis'')"
  by (simp add: plan_workflow_def dict_get_def split: option.splits)

lemma analyze_rest_report_only:
  assumes ag: "scoped_agents env" and wf: "wf_tracer (tracer w)"
      and pa: "truthy (dict_get workflow ''perform_analysis'')"
      and gr: "truthy (dict_get workflow ''generate_report'')"
      and a: "\<forall>w'. fst (analyze_data env data query w') = Inr ares"
      and na: "\<not> truthy (dict_get ares ''success'')"
      and r: "\<forall>t w'. fst (generate_report env t ares w') = Inr rres"
      and rs: "truthy (dict_get rres ''success'')"
      and rep: "map_of rres ''report'' = Some (PDict rep)"
  shows "\<exists>resp. fst (analyze_rest env query workflow started data w) = Inr (Compiled resp)
           \<and> r_analysis resp = None
           \<and> r_report resp = Some (dict_get rep ''filepath'', dict_get rep ''format'')
           \<and> r_query resp = query \<and> r_workflow resp = workflow"
proof -
  let ?clk = "clock env"
  let ?title = "case map_of workflow ''report_title'' of
                  None \<Rightarrow> PStr ''Business Analytics Report'' | Some t \<Rightarrow> t"
  obtain w4 where ad: "analyze_data env data query w = (Inr ares, w4)"
    using a by (cases "analyze_data env data query w") (metis fst_conv)
  have sa: "scoped ?clk (analyze_data env data query)"
    and sr: "scoped ?clk (generate_report env ?title ares)"
    using ag by (simp_all add: scoped_agents_def)
  have wf4: "wf_tracer (tracer w4)" using scopedD(1) [OF sa wf] ad by simp
  have step3: "analysis_step env workflow data query w = (Inr ares, w4)"
    using pa na by (simp add: analysis_step_def then_do_def ad ret_def)
  obtain w5 where gd: "generate_report env ?title ares w4 = (Inr rres, w5)"
    using r by (cases "generate_report env ?title ares w4") (metis fst_conv)
  have wf5: "wf_tracer (tracer w5)" using scopedD(1) [OF sr wf4] gd by simp
  have step4: "report_step env workflow ares w4 = (Inr rres, w5)"
    using gr by (simp add: report_step_def gd)
  obtain tr w6 where ts: "get_trace_summary ?clk w5 = (Inr tr, w6)"
    using get_trace_summary_ok [OF wf5, of ?clk]
    by (cases "get_trace_summary ?clk w5") auto
  let ?resp = "\<lparr>r_query = query, r_session_id = session_id env, r_workflow = workflow,
                r_analysis = None,
                r_report = Some (dict_get rep ''filepath'', dict_get rep ''format''),
                r_trace = tr, r_metrics = fst (get_summary_w ?clk w6)\<rparr>"
  have step5: "compile_response env query ares rres workflow w5 =
                 (Inr ?resp, snd (get_summary_w ?clk w6))"
    using na rs by (simp add: compile_response_def Let_def rep ts case_prod_beta)
  have "analyze_rest env query workflow started data w =
          finish env started ?resp (snd (get_summary_w ?clk w6))"
    by (simp add: analyze_rest_def then_do_def step3 step4 step5)
  then have "fst (analyze_rest env query workflow started data w) = Inr (Compiled ?resp)"
    by (simp add: finish_frame(3))
  then show ?thesis by (intro exI [of _ ?resp]) simp
qed

lemma analyze_try_report_only:
  assumes ag: "scoped_agents env" and wf: "wf_tracer (tracer w)"
      and wfl: "workflow = plan_workflow (plan_llm env) query data_file"
      and gr: "truthy (dict_get workflow ''generate_report'')"
      and dt: "data = (if truthy_str data_file \<or> truthy (dict_get workflow ''needs_data'')
                       then load_data_try env (if truthy_str data_file then data_file else None)
                       else None)"
      and ld: "truthy_str data_file \<or> truthy (dict_get workflow ''needs_data'') \<longrightarrow> data \<noteq> None"
      and a: "\<forall>w'. fst (analyze_data env data query w') = Inr ares"
      and na: "\<not> truthy (dict_get ares ''success'')"
      and r: "\<forall>t w'. fst (generate_report env t ares w') = Inr rres"
      and rs: "truthy (dict_get rres ''success'')"
      and rep: "map_of rres ''report'' = Some (PDict rep)"
  shows "\<exists>resp. fst (analyze_try env query data_file started w) = Inr (Compiled resp)
           \<and> r_analysis resp = None
           \<and> r_report resp = Some (dict_get rep ''filepath'', dict_get rep ''format'')
           \<and> r_query resp = query \<and> r_workflow resp = workflow"
proof -
  let ?clk = "clock env"
  let ?w1 = "update_session_w ?clk (session_id env) ''user'' query w"
  let ?path = "if truthy_str data_file then data_file else None"
  have wf1: "wf_tracer (tracer ?w1)" using wf by (simp add: update_session_w_fields)
  have pa: "truthy (dict_get workflow ''perform_analysis'')"
    unfolding wfl by (rule plan_perform_analysis)
  show ?thesis
  proof (cases "truthy_str data_file \<or> truthy (dict_get workflow ''needs_data'')")
    case True
    then obtain f where f: "load_data_try env ?path = Some f" and d: "data = Some f"
      using dt ld by auto
    obtain w2 where l: "load_data env ?path ?w1 = (Inr (Some f), w2)"
      using load_data_fields(1) [of env ?path ?w1] f
      by (cases "load_data env ?path ?w1") simp
    have wf2: "wf_tracer (tracer w2)"
      using scopedD(1) [OF scoped_load_data wf1, of env ?path] l by simp
    have "analyze_try env query data_file started w =
            analyze_rest env query workflow started (Some f) w2"
      using True by (simp add: analyze_try_def Let_def wfl [symmetric] then_do_def l)
    then show ?thesis
      using analyze_rest_report_only [OF ag wf2 pa gr a na r rs rep, of started] d by simp
  next
    case False
    then have d: "data = None" using dt by simp
    have "analyze_try env query data_file started w =
            analyze_rest env query workflow started None ?w1"
      using False by (simp add: analyze_try_def Let_def wfl [symmetric])
    then show ?thesis
      using analyze_rest_report_only [OF ag wf1 pa gr a na r rs rep, of started] d by simp
  qed
qed

text \<open>
  The result of \<open>analyze\<close> is the result of its \<open>try\<close> block, run in some
  well-shaped state, or the failure its handler makes of the exception.
\<close>

lemma analyze_descends:
  assumes ag: "scoped_agents env" and wf: "wf_tracer (tracer w)"
  obtains started w2 where "wf_tracer (tracer w2)"
    and "fst (analyze env query data_file w) =
           (case fst (analyze_try env query data_file started w2) of
              Inr r \<Rightarrow> Inr r
            | Inl e \<Rightarrow> Inr (Failed (str_exn e)))"
proof -
  obtain w1 where wf1: "wf_tracer (tracer w1)"
    and res: "fst (analyze env query data_file w) = fst (analyze_body env query data_file w1)"
    unfolding analyze_def
    using with_span_result [OF wf scoped_analyze_body [OF ag]] by blast
  let ?w2 = "increment_w (clock env) ''coordinator.analysis_requests'' w1"
  let ?w3 = "snd (read_clock (clock env) ?w2)"
  have wf3: "wf_tracer (tracer ?w3)"
    using wf1 by (simp add: read_clock_fields(2-6) increment_w_fields)
  have "fst (analyze env query data_file w) =
          (case fst (analyze_try env query data_file (fst (read_clock (clock env) ?w2)) ?w3) of
             Inr r \<Rightarrow> Inr r
           | Inl e \<Rightarrow> Inr (Failed (str_exn e)))"
    unfolding res analyze_body_fst Let_def by simp
  then show ?thesis using wf3 that by blast
qed

text \<open>
  C1 (as amended). When the analysis collaborator answers with a result whose
  \<open>success\<close> is false (as \<open>DataAnalystAgent.analyze_data\<close> does for every exception
  raised inside it), the plan asks for a report, and the report collaborator answers
  with a successful result holding a \<open>report\<close> dictionary, then \<open>analyze\<close> returns
  a compiled response (\<open>success: True\<close>) without the \<open>analysis\<close> key and with the
  \<open>filepath\<close> and \<open>format\<close> of that report; data, where the request needs
  some, is assumed to load.
\<close>

theorem analyze_continues_after_failed_analysis:
  assumes ag: "scoped_agents env" and wf: "wf_tracer (tracer w)"
      and wfl: "workflow = plan_workflow (plan_llm env) query data_file"
      and gr: "truthy (dict_get workflow ''generate_report'')"
      and dt: "data = (if truthy_str data_file \<or> truthy (dict_get workflow ''needs_data'')
                       then load_data_try env (if truthy_str data_file then data_file else None)
                       else None)"
      and ld: "truthy_str data_file \<or> truthy (dict_get workflow ''needs_data'') \<longrightarrow> data \<noteq> None"
      and a: "\<forall>w'. fst (analyze_data env data query w') = Inr ares"
      and na: "\<not> truthy (dict_get ares ''success'')"
      and r: "\<forall>t w'. fst (generate_report env t ares w') = Inr rres"
      and rs: "truthy (dict_get rres ''success'')"
      and rep: "map_of rres ''report'' = Some (PDict rep)"
  shows "\<exists>resp. fst (analyze env query data_file w) = Inr (Compiled resp)
           \<and> success (Compiled resp)
           \<and> r_analysis resp = None
           \<and> r_report resp = Some (dict_get rep ''filepath'', dict_get rep ''format'')
           \<and> r_query resp = query"
proof -
  obtain started w2 where wf2: "wf_tracer (tracer w2)"
    and res: "fst (analyze env query data_file w) =
                (case fst (analyze_try env query data_file started w2) of
                   Inr r \<Rightarrow> Inr r
                 | Inl e \<Rightarrow> Inr (Failed (str_exn e)))"
    using analyze_descends [OF ag wf] by blast
  obtain resp where t: "fst (analyze_try env query data_file started w2) = Inr (Compiled resp)"
    and f: "r_analysis resp = None"
      "r_report resp = Some (dict_get rep ''filepath'', dict_get rep ''format'')"
      "r_query resp = query"
    using analyze_try_report_only [OF ag wf2 wfl gr dt ld a na r rs rep] by blast
  have "fst (analyze env query data_file w) = Inr (Compiled resp)"
    unfolding res t by simp
  then show ?thesis using f by (auto simp: success_def)
qed

lemma env_demo_agents: "scoped_agents env_demo"
  by (simp add: scoped_agents_def env_demo_def scoped_data_analyst scoped_report_generator)

theorem analyze_continues_after_failed_analysis_witness:
  "scoped_agents env_demo \<and> wf_tracer (tracer world0)
   \<and> truthy (dict_get (plan_workflow (plan_llm env_demo) ''generate a report'' None)
               ''generate_report'')
   \<and> \<not> (truthy_str None
         \<or> truthy (dict_get (plan_workflow (plan_llm env_demo) ''generate a report'' None)
                     ''needs_data''))
   \<and> (\<forall>w'. fst (analyze_data env_demo None ''generate a report'' w') =
              Inr [(''success'', PBool False),
                   (''error'', PStr ''NoneType object has no attribute shape'')])
   \<and> (\<forall>t w'. fst (generate_report env_demo t
                     [(''success'', PBool False),
                      (''error'', PStr ''NoneType object has no attribute shape'')] w') =
              Inr [(''success'', PBool True),
                   (''report'', PDict [(''filepath'', PStr ''x.md''),
                                       (''format'', PStr ''markdown'')]),
                   (''sections'', PInt 2)])
   \<and> (\<exists>resp. fst (analyze env_demo ''generate a report'' None world0) = Inr (Compiled resp)
           \<and> success (Compiled resp)
           \<and> r_analysis resp = None
           \<and> r_report resp = Some (PStr ''x.md'', PStr ''markdown''))"
proof -
  let ?q = "''generate a report''"
  let ?wfl = "plan_workflow (plan_llm env_demo) ?q None"
  let ?ares = "[(''success'', PBool False),
                (''error'', PStr ''NoneType object has no attribute shape'')]"
  let ?rep = "[(''filepath'', PStr ''x.md''), (''format'', PStr ''markdown'')]"
  let ?rres = "[(''success'', PBool True), (''report'', PDict ?rep), (''sections'', PInt 2)]"
  have p: "?wfl = [(''needs_data'', PBool False), (''perform_analysis'', PBool True),
      (''generate_report'', PBool True), (''report_title'', PStr ''Business Analytics Report'')]"
    using plan_report_query by (simp add: env_demo_def)
  have gr: "truthy (dict_get ?wfl ''generate_report'')" by (simp add: p dict_get_def)
  have nd: "\<not> (truthy_str None \<or> truthy (dict_get ?wfl ''needs_data''))"
    by (simp add: p dict_get_def truthy_str_def)
  have dt: "None = (if truthy_str None \<or> truthy (dict_get ?wfl ''needs_data'')
                    then load_data_try env_demo (if truthy_str None then None else None)
                    else None)"
    using nd by simp
  have ld: "truthy_str None \<or> truthy (dict_get ?wfl ''needs_data'') \<longrightarrow> (None :: frame option) \<noteq> None"
    using nd by simp
  have a: "\<forall>w'. fst (analyze_data env_demo None ?q w') = Inr ?ares"
    by (simp add: env_demo_def data_analyst_no_data)
  have na: "\<not> truthy (dict_get ?ares ''success'')" by (simp add: dict_get_def)
  have r: "\<forall>t w'. fst (generate_report env_demo t ?ares w') = Inr ?rres"
    by (simp add: env_demo_def report_generator_result)
  have rs: "truthy (dict_get ?rres ''success'')" by (simp add: dict_get_def)
  have rep: "map_of ?rres ''report'' = Some (PDict ?rep)" by simp
  have "\<exists>resp. fst (analyze env_demo ?q None world0) = Inr (Compiled resp)
           \<and> success (Compiled resp)
           \<and> r_analysis resp = None
           \<and> r_report resp = Some (dict_get ?rep ''filepath'', dict_get ?rep ''format'')
           \<and> r_query resp = ?q"
    by (rule analyze_continues_after_failed_analysis
        [OF env_demo_agents world0_wf refl gr dt ld a na r rs rep])
  then have "\<exists>resp. fst (analyze env_demo ?q None world0) = Inr (Compiled resp)
           \<and> success (Compiled resp)
           \<and> r_analysis resp = None
           \<and> r_report resp = Some (PStr ''x.md'', PStr ''markdown'')"
    by (auto simp: dict_get_def)
  then show ?thesis using env_demo_agents world0_wf gr nd a r by blast
qed

lemma analyze_collaborator_raises:
  assumes nd: "\<not> (truthy_str data_file
                  \<or> truthy (dict_get (plan_workflow (plan_llm env) query data_file) ''needs_data''))"
      and a: "\<forall>w'. analyze_data env None query w' = (Inl e, w')"
  shows "fst (analyze env query data_file w) = Inr (Failed (str_exn e))"
    and "timers (collector (snd (analyze env query data_file w))) = timers (collector w)"
    and "counter (collector (snd (analyze env query data_file w))) ''coordinator.analysis_success''
           = counter (collector w) ''coordinator.analysis_success''"
proof -
  let ?clk = "clock env"
  let ?md = "Some [(''query'', PStr query)]"
  let ?w0 = "snd (span_enter ?clk ''coordinator.analyze'' ?md w)"
  let ?w1 = "increment_w ?clk ''coordinator.analysis_requests'' ?w0"
  let ?w2 = "snd (read_clock ?clk ?w1)"
  let ?st = "fst (read_clock ?clk ?w1)"
  let ?w3 = "update_session_w ?clk (session_id env) ''user'' query ?w2"
  let ?wfl = "plan_workflow (plan_llm env) query data_file"
  let ?body = "analyze_body env query data_file"
  have "analysis_step env ?wfl None query ?w3 = (Inl e, ?w3)"
    using a by (simp add: analysis_step_def then_do_def plan_perform_analysis)
  then have "analyze_rest env query ?wfl ?st None ?w3 = (Inl e, ?w3)"
    by (simp add: analyze_rest_def then_do_def)
  then have t: "analyze_try env query data_file ?st ?w2 = (Inl e, ?w3)"
    using nd by (simp add: analyze_try_def Let_def)
  have body: "?body ?w0 =
                (Inr (Failed (str_exn e)), increment_w ?clk ''coordinator.analysis_errors'' ?w3)"
    by (simp add: analyze_body_def Let_def case_prod_beta t)
  have act: "active_spans (tracer (snd (?body ?w0))) = active_spans (tracer ?w0)"
    by (simp add: body increment_w_fields update_session_w_fields read_clock_fields(2-6))
  have an: "analyze env query data_file w = with_span ?clk ''coordinator.analyze'' ?md ?body w"
    by (simp add: analyze_def)
  show "fst (analyze env query data_file w) = Inr (Failed (str_exn e))"
    unfolding an
    using with_span_fst(1) [where body = ?body and clk = ?clk and n = "''coordinator.analyze''"
        and md = ?md and w = w, OF act]
    by (simp add: body)
  have col: "collector (snd (analyze env query data_file w)) =
               collector (increment_w ?clk ''coordinator.analysis_errors'' ?w3)"
    unfolding an with_span_frame by (simp add: body)
  show "timers (collector (snd (analyze env query data_file w))) = timers (collector w)"
    unfolding col
    by (simp add: increment_w_fields update_session_w_fields read_clock_fields(2-6)
        span_enter_frame)
  show "counter (collector (snd (analyze env query data_file w))) ''coordinator.analysis_success''
           = counter (collector w) ''coordinator.analysis_success''"
    unfolding col
    by (simp add: increment_w_fields update_session_w_fields read_clock_fields(2-6)
        span_enter_frame)
qed

text \<open>
  A successful report result must hold its report as a dictionary: on any other value
  \<open>_compile_response\<close> raises \<open>AttributeError\<close>, which the handler of
  \<open>analyze\<close> turns into a failure.
\<close>

lemma analyze_try_report_not_a_dictionary:
  assumes nd: "\<not> (truthy_str data_file
                  \<or> truthy (dict_get (plan_workflow (plan_llm env) query data_file) ''needs_data''))"
      and gr: "truthy (dict_get (plan_workflow (plan_llm env) query data_file) ''generate_report'')"
      and a: "\<forall>w'. fst (analyze_data env None query w') = Inr ares"
      and na: "\<not> truthy (dict_get ares ''success'')"
      and r: "\<forall>t w'. fst (generate_report env t ares w') = Inr rres"
      and rs: "truthy (dict_get rres ''success'')"
      and rp: "map_of rres ''report'' = Some v" and nv: "\<forall>rep. v \<noteq> PDict rep"
  shows "\<exists>m. fst (analyze_try env query data_file started w) = Inl (AttributeError m)"
proof -
  let ?clk = "clock env"
  let ?w1 = "update_session_w ?clk (session_id env) ''user'' query w"
  let ?wfl = "plan_workflow (plan_llm env) query data_file"
  let ?title = "case map_of ?wfl ''report_title'' of
                  None \<Rightarrow> PStr ''Business Analytics Report'' | Some t \<Rightarrow> t"
  obtain w4 where ad: "analyze_data env None query ?w1 = (Inr ares, w4)"
    using a by (cases "analyze_data env None query ?w1") (metis fst_conv)
  have step3: "analysis_step env ?wfl None query ?w1 = (Inr ares, w4)"
    using na by (simp add: analysis_step_def then_do_def ad ret_def plan_perform_analysis)
  obtain w5 where gd: "generate_report env ?title ares w4 = (Inr rres, w5)"
    using r by (cases "generate_report env ?title ares w4") (metis fst_conv)
  have step4: "report_step env ?wfl ares w4 = (Inr rres, w5)"
    using gr by (simp add: report_step_def gd)
  have step5: "\<exists>m. compile_response env query ares rres ?wfl w5 = (Inl (AttributeError m), w5)"
    using na rs nv by (cases v) (simp_all add: compile_response_def Let_def rp)
  then obtain m where c: "compile_response env query ares rres ?wfl w5 = (Inl (AttributeError m), w5)"
    by blast
  have "analyze_rest env query ?wfl started None ?w1 = (Inl (AttributeError m), w5)"
    by (simp add: analyze_rest_def then_do_def step3 step4 c)
  then have "analyze_try env query data_file started w = (Inl (AttributeError m), w5)"
    using nd by (simp add: analyze_try_def Let_def)
  then show ?thesis by simp
qed

lemma analyze_report_not_a_dictionary:
  assumes ag: "scoped_agents env" and wf: "wf_tracer (tracer w)"
      and nd: "\<not> (truthy_str data_file
                  \<or> truthy (dict_get (plan_workflow (plan_llm env) query data_file) ''needs_data''))"
      and gr: "truthy (dict_get (plan_workflow (plan_llm env) query data_file) ''generate_report'')"
      and a: "\<forall>w'. fst (analyze_data env None query w') = Inr ares"
      and na: "\<not> truthy (dict_get ares ''success'')"
      and r: "\<forall>t w'. fst (generate_report env t ares w') = Inr rres"
      and rs: "truthy (dict_get rres ''success'')"
      and rp: "map_of rres ''report'' = Some v" and nv: "\<forall>rep. v \<noteq> PDict rep"
  shows "\<exists>m. fst (analyze env query data_file w) = Inr (Failed m)"
proof -
  obtain started w2 where
    res: "fst (analyze env query data_file w) =
                (case fst (analyze_try env query data_file started w2) of
                   Inr r \<Rightarrow> Inr r
                 | Inl e \<Rightarrow> Inr (Failed (str_exn e)))"
    using analyze_descends [OF ag wf] by blast
  obtain m where "fst (analyze_try env query data_file started w2) = Inl (AttributeError m)"
    using analyze_try_report_not_a_dictionary [OF nd gr a na r rs rp nv] by blast
  then show ?thesis unfolding res by simp
qed

lemma env_report_text_agents: "scoped_agents env_report_text"
  by (simp add: scoped_agents_def env_report_text_def env_demo_def scoped_data_analyst
      unchanged_tracer_scoped)

text \<open>
  C1 as stated fails: for the query of the scenario, an analysis collaborator that
  raises and a report collaborator that would return the report \<open>x.md\<close>, the
  exception reaches the \<open>except Exception\<close> handler of \<open>analyze\<close>, which
  returns \<open>{"success": False, "error": \<dots>}\<close>; the report step is never run.
  It also fails with the analysis agent of the repository and a report collaborator
  that succeeds with \<open>{"success": True, "report": "x.md"}\<close>: the response is a
  failure, not a compiled response.
\<close>

theorem analyze_throwing_collaborator_counterexample:
  "fst (analyze env_throw ''generate a report'' None world0) = Inr (Failed ''analysis exploded'')
   \<and> \<not> success (Failed ''analysis exploded'')
   \<and> (\<exists>m. fst (analyze env_report_text ''generate a report'' None world0) = Inr (Failed m))"
proof -
  have nd: "\<not> (truthy_str None
        \<or> truthy (dict_get (plan_workflow (plan_llm env_throw) ''generate a report'' None)
                    ''needs_data''))"
    using plan_report_query by (simp add: env_throw_def env_demo_def dict_get_def truthy_str_def)
  have a: "\<forall>w'. analyze_data env_throw None ''generate a report'' w' =
                (Inl (Exception ''analysis exploded''), w')"
    by (simp add: env_throw_def)
  have first: "fst (analyze env_throw ''generate a report'' None world0) =
                 Inr (Failed ''analysis exploded'')"
    using analyze_collaborator_raises(1) [OF nd a, of world0] by simp
  have second: "\<exists>m. fst (analyze env_report_text ''generate a report'' None world0) = Inr (Failed m)"
  proof -
    let ?q = "''generate a report''"
    let ?wfl = "plan_workflow (plan_llm env_report_text) ?q None"
    let ?ares = "[(''success'', PBool False),
                  (''error'', PStr ''NoneType object has no attribute shape'')]"
    let ?rres = "[(''success'', PBool True), (''report'', PStr ''x.md'')]"
    have p: "?wfl = [(''needs_data'', PBool False), (''perform_analysis'', PBool True),
        (''generate_report'', PBool True), (''report_title'', PStr ''Business Analytics Report'')]"
      using plan_report_query by (simp add: env_report_text_def env_demo_def)
    have gr: "truthy (dict_get ?wfl ''generate_report'')" by (simp add: p dict_get_def)
    have nd: "\<not> (truthy_str None \<or> truthy (dict_get ?wfl ''needs_data''))"
      by (simp add: p dict_get_def truthy_str_def)
    have a: "\<forall>w'. fst (analyze_data env_report_text None ?q w') = Inr ?ares"
      by (simp add: env_report_text_def env_demo_def data_analyst_no_data)
    have na: "\<not> truthy (dict_get ?ares ''success'')" by (simp add: dict_get_def)
    have r: "\<forall>t w'. fst (generate_report env_report_text t ?ares w') = Inr ?rres"
      by (simp add: env_report_text_def)
    have rs: "truthy (dict_get ?rres ''success'')" by (simp add: dict_get_def)
    have rp: "map_of ?rres ''report'' = Some (PStr ''x.md'')" by simp
    have nv: "\<forall>rep. PStr ''x.md'' \<noteq> PDict rep" by simp
    show ?thesis
      by (rule analyze_report_not_a_dictionary [OF env_report_text_agents world0_wf nd gr a na r rs rp nv])
  qed
  show ?thesis using first second by (simp add: success_def)
qed


section \<open>The accumulating trace\<close>


















end
